theory Spec2Isabelle
  imports Main "HOL-Library.Word"
begin

section \<open>Strings of the JavaScript runtime\<close>

text \<open>
  A JavaScript string is a sequence of 16-bit UTF-16 code units: \<open>value.length\<close> counts
  code units, \<open>value.split("")\<close> cuts between code units, a regular expression without the
  \<open>u\<close> flag matches code units, and only the string iterator (\<open>for (const char of value)\<close>)
  walks the string by Unicode code points, yielding a surrogate pair as one element.
  String literals of the source are ASCII and are written \<open>str ''...''\<close>.
\<close>

type_synonym jsstring = "16 word list"

definition str :: "string \<Rightarrow> jsstring" where
  "str s = map of_char s"

text \<open>
  \<open>String.prototype.toLowerCase\<close> (the full Unicode case mapping of the runtime) and the
  SHA-256 hex digest of the \<open>crypto\<close> module are not code of the repository. Every function
  that calls them takes them as the parameters \<open>lc\<close> and \<open>sha\<close>, so each theorem holds for
  whatever the runtime computes. On a string of ASCII code units the runtime's lower-casing
  is the map of \<open>A..Z\<close> to \<open>a..z\<close>; \<open>ascii_lowering lc\<close> says that much about \<open>lc\<close> and
  nothing more.
\<close>

definition lower_unit :: "16 word \<Rightarrow> 16 word" where
  "lower_unit c = (if 0x41 \<le> c \<and> c \<le> 0x5A then c + 0x20 else c)"

definition is_ascii :: "jsstring \<Rightarrow> bool" where
  "is_ascii s = list_all (\<lambda>c. c < 0x80) s"

definition ascii_toLowerCase :: "jsstring \<Rightarrow> jsstring" where
  "ascii_toLowerCase s = map lower_unit s"

definition ascii_lowering :: "(jsstring \<Rightarrow> jsstring) \<Rightarrow> bool" where
  "ascii_lowering lc = (\<forall>s. is_ascii s \<longrightarrow> lc s = ascii_toLowerCase s)"

text \<open>
  The string iterator: a high surrogate followed by a low surrogate is one element (a string
  of two code units), any other code unit is an element of its own.
\<close>

definition is_high_surrogate :: "16 word \<Rightarrow> bool" where
  "is_high_surrogate c = (0xD800 \<le> c \<and> c \<le> 0xDBFF)"

definition is_low_surrogate :: "16 word \<Rightarrow> bool" where
  "is_low_surrogate c = (0xDC00 \<le> c \<and> c \<le> 0xDFFF)"

fun string_iterator :: "jsstring \<Rightarrow> jsstring list" where
  "string_iterator [] = []"
| "string_iterator [c] = [[c]]"
| "string_iterator (c # d # cs) =
     (if is_high_surrogate c \<and> is_low_surrogate d
      then [c, d] # string_iterator cs
      else [c] # string_iterator (d # cs))"

text \<open>\<open>value.split("")\<close>, \<open>Array.prototype.reverse\<close> and \<open>join("")\<close>.\<close>

definition split_units :: "jsstring \<Rightarrow> jsstring list" where
  "split_units s = map (\<lambda>c. [c]) s"

definition join_empty :: "jsstring list \<Rightarrow> jsstring" where
  "join_empty parts = concat parts"

text \<open>
  White space as \<open>trim\<close> and the class \<open>\s\<close> know it (the same set in ECMAScript: the
  WhiteSpace and LineTerminator code points, all of them single code units).
\<close>

definition isWhiteSpace :: "16 word \<Rightarrow> bool" where
  "isWhiteSpace c =
     (c = 0x9 \<or> c = 0xA \<or> c = 0xB \<or> c = 0xC \<or> c = 0xD \<or> c = 0x20 \<or> c = 0xA0 \<or>
      c = 0x1680 \<or> (0x2000 \<le> c \<and> c \<le> 0x200A) \<or> c = 0x2028 \<or> c = 0x2029 \<or>
      c = 0x202F \<or> c = 0x205F \<or> c = 0x3000 \<or> c = 0xFEFF)"

definition trim :: "jsstring \<Rightarrow> jsstring" where
  "trim s = rev (dropWhile isWhiteSpace (rev (dropWhile isWhiteSpace s)))"

text \<open>
  \<open>s.split(/\s+/)\<close>. The runtime scans for the separator from the left; text before a match
  is pushed as a piece (also when it is empty), the greedy match swallows the whole run of
  white space, and what is left at the end is pushed as the last piece. The pattern cannot
  match the empty string, so the empty input gives the one piece \<open>""\<close>. The first argument
  is the piece collected so far.
\<close>

function split_ws :: "jsstring \<Rightarrow> jsstring \<Rightarrow> jsstring list" where
  "split_ws piece [] = [piece]"
| "split_ws piece (c # cs) =
     (if isWhiteSpace c then piece # split_ws [] (dropWhile isWhiteSpace cs)
      else split_ws (piece @ [c]) cs)"
  by pat_completeness auto
termination
  by (relation "measure (\<lambda>(piece, s). length s)")
     (auto simp: length_dropWhile_le less_Suc_eq_le)

section \<open>Storage.computeProperties\<close>

text \<open>
  The frequency table is a JavaScript \<open>Map\<close>: keys in insertion order, \<open>set\<close> on a key that
  is present replaces its value in place, on a new key appends. \<open>Object.fromEntries\<close> turns
  it into a plain object with the same keys and values; the model keeps the association
  list (no claim depends on the enumeration order of the object's keys).
\<close>

fun map_get :: "('k \<times> 'v) list \<Rightarrow> 'k \<Rightarrow> 'v option" where
  "map_get [] k = None"
| "map_get ((k', v) # m) k = (if k' = k then Some v else map_get m k)"

fun map_has :: "('k \<times> 'v) list \<Rightarrow> 'k \<Rightarrow> bool" where
  "map_has [] k = False"
| "map_has ((k', v) # m) k = (k' = k \<or> map_has m k)"

fun map_set :: "('k \<times> 'v) list \<Rightarrow> 'k \<Rightarrow> 'v \<Rightarrow> ('k \<times> 'v) list" where
  "map_set [] k v = [(k, v)]"
| "map_set ((k', v') # m) k v = (if k' = k then (k, v) # m else (k', v') # map_set m k v)"

text \<open>\<open>Map.prototype.delete\<close>: the map without the key, and whether the key was there.\<close>

fun map_delete :: "('k \<times> 'v) list \<Rightarrow> 'k \<Rightarrow> ('k \<times> 'v) list" where
  "map_delete [] k = []"
| "map_delete ((k', v) # m) k = (if k' = k then m else (k', v) # map_delete m k)"

definition map_values :: "('k \<times> 'v) list \<Rightarrow> 'v list" where
  "map_values m = map snd m"

record properties =
  length_p :: nat
  is_palindrome :: bool
  unique_characters :: nat
  word_count :: nat
  sha256_hash :: jsstring
  character_frequency_map :: "(jsstring \<times> nat) list"

text \<open>The loop \<open>for (const char of value) freq.set(char, (freq.get(char) || 0) + 1)\<close>.\<close>

fun count_chars :: "(jsstring \<times> nat) list \<Rightarrow> jsstring list \<Rightarrow> (jsstring \<times> nat) list" where
  "count_chars freq [] = freq"
| "count_chars freq (ch # chs) =
     count_chars (map_set freq ch ((case map_get freq ch of None \<Rightarrow> 0 | Some n \<Rightarrow> n) + 1)) chs"

definition computeProperties ::
  "(jsstring \<Rightarrow> jsstring) \<Rightarrow> (jsstring \<Rightarrow> jsstring) \<Rightarrow> jsstring \<Rightarrow> properties" where
  "computeProperties lc sha value =
     (let lower = lc value;
          hash = sha value;
          freq = count_chars [] (string_iterator value);
          unique = length freq;
          wordCount = length (split_ws [] (trim value));
          reversed = lc (join_empty (rev (split_units value)));
          isPal = (lower = reversed)
      in \<lparr> length_p = length value,
           is_palindrome = isPal,
           unique_characters = unique,
           word_count = wordCount,
           sha256_hash = hash,
           character_frequency_map = freq \<rparr>)"

section \<open>Numbers of the JavaScript runtime\<close>

text \<open>
  A number is an IEEE 754 double. Those that occur here are the results of \<open>parseInt\<close>,
  of \<open>length\<close> and of adding 1: integers that a double can hold, the two infinities and
  \<open>NaN\<close>. An integer is held exactly up to \<open>2^53\<close> in magnitude; beyond, it is rounded to
  53 significant bits, to the nearest, a tie to the even neighbour, and from \<open>2^1024\<close> on
  the result is an infinity. \<open>exponent_above m\<close> is the number of low bits that \<open>m\<close> loses.
\<close>

datatype jsnum = Finite int | PosInfinity | NegInfinity | NaN

function exponent_above :: "nat \<Rightarrow> nat" where
  "exponent_above m = (if m < 2 ^ 53 then 0 else Suc (exponent_above (m div 2)))"
  by pat_completeness auto
termination
  by (relation "measure (\<lambda>m. m)") auto

declare exponent_above.simps [simp del]

definition round_magnitude :: "nat \<Rightarrow> nat option" where
  "round_magnitude m =
     (let e = exponent_above m;
          q = m div 2 ^ e;
          r = m mod 2 ^ e;
          q' = (if 2 * r > 2 ^ e \<or> (2 * r = 2 ^ e \<and> odd q) then q + 1 else q);
          v = q' * 2 ^ e
      in if v \<ge> 2 ^ 1024 then None else Some v)"

definition to_double :: "int \<Rightarrow> jsnum" where
  "to_double n =
     (case round_magnitude (nat \<bar>n\<bar>) of
        None \<Rightarrow> if n < 0 then NegInfinity else PosInfinity
      | Some v \<Rightarrow> Finite (if n < 0 then - int v else int v))"

text \<open>\<open>a + b\<close>: the exact sum, rounded.\<close>

fun js_plus :: "jsnum \<Rightarrow> jsnum \<Rightarrow> jsnum" where
  "js_plus (Finite a) (Finite b) = to_double (a + b)"
| "js_plus NaN b = NaN"
| "js_plus a NaN = NaN"
| "js_plus PosInfinity NegInfinity = NaN"
| "js_plus NegInfinity PosInfinity = NaN"
| "js_plus PosInfinity b = PosInfinity"
| "js_plus a PosInfinity = PosInfinity"
| "js_plus NegInfinity b = NegInfinity"
| "js_plus a NegInfinity = NegInfinity"

text \<open>\<open>a < b\<close> (so \<open>a > b\<close> is \<open>js_less b a\<close>) and \<open>a !== b\<close>: every comparison with \<open>NaN\<close> is
  false, and \<open>NaN\<close> differs from every number, itself included.\<close>

fun js_less :: "jsnum \<Rightarrow> jsnum \<Rightarrow> bool" where
  "js_less NaN b = False"
| "js_less a NaN = False"
| "js_less (Finite a) (Finite b) = (a < b)"
| "js_less PosInfinity b = False"
| "js_less a PosInfinity = True"
| "js_less NegInfinity NegInfinity = False"
| "js_less NegInfinity b = True"
| "js_less a NegInfinity = False"

definition js_strict_neq :: "jsnum \<Rightarrow> jsnum \<Rightarrow> bool" where
  "js_strict_neq a b = (a = NaN \<or> b = NaN \<or> a \<noteq> b)"

section \<open>The store\<close>

text \<open>
  \<open>this.strings\<close> is a \<open>Map\<close> from digest to stored record, iterated in insertion order.
  The creation time stamp \<open>new Date().toISOString()\<close> is read from the clock; \<open>create\<close>
  takes it as the argument \<open>now\<close>. \<open>create\<close> either throws or returns the stored record;
  the model returns that outcome together with the map after the call.
\<close>

record stored =
  stored_id :: jsstring
  stored_value :: jsstring
  properties :: properties
  created_at :: jsstring

type_synonym strings = "(jsstring \<times> stored) list"

datatype error = AlreadyExists | ConflictingFilters

definition storage_create ::
  "(jsstring \<Rightarrow> jsstring) \<Rightarrow> (jsstring \<Rightarrow> jsstring) \<Rightarrow> jsstring \<Rightarrow> strings \<Rightarrow> jsstring
     \<Rightarrow> (error + stored) \<times> strings" where
  "storage_create lc sha now strings value =
     (let props = computeProperties lc sha value in
      if map_has strings (sha256_hash props) then (Inl AlreadyExists, strings)
      else
        (let st = \<lparr> stored_id = sha256_hash props,
                      stored_value = value,
                      properties = props,
                      created_at = now \<rparr>
         in (Inr st, map_set strings (sha256_hash props) st)))"

definition storage_get :: "strings \<Rightarrow> jsstring \<Rightarrow> stored option" where
  "storage_get strings hash = map_get strings hash"

definition storage_delete :: "strings \<Rightarrow> jsstring \<Rightarrow> bool \<times> strings" where
  "storage_delete strings hash = (map_has strings hash, map_delete strings hash)"

subsection \<open>Storage.list\<close>

text \<open>
  A filter set is an object whose keys may be absent (\<open>undefined\<close>, here \<open>None\<close>). The
  numeric filters hold numbers of the runtime: what \<open>parseInt\<close> returned, \<open>NaN\<close> included.
\<close>

record filters =
  is_palindrome_f :: "bool option"
  min_length :: "jsnum option"
  max_length :: "jsnum option"
  word_count_f :: "jsnum option"
  contains_character :: "jsstring option"

definition no_filters :: filters where
  "no_filters = \<lparr> is_palindrome_f = None, min_length = None, max_length = None,
                  word_count_f = None, contains_character = None \<rparr>"

text \<open>The body of the loop: the flag \<open>match\<close> starts true and each test can clear it.\<close>

definition record_matches :: "stored \<Rightarrow> filters \<Rightarrow> bool" where
  "record_matches st f =
     (let m0 = True;
          m1 = (case is_palindrome_f f of
                  Some b \<Rightarrow> if is_palindrome (properties st) \<noteq> b then False else m0
                | None \<Rightarrow> m0);
          m2 = (case min_length f of
                  Some n \<Rightarrow>
                    if js_less (Finite (int (length_p (properties st)))) n then False else m1
                | None \<Rightarrow> m1);
          m3 = (case max_length f of
                  Some n \<Rightarrow>
                    if js_less n (Finite (int (length_p (properties st)))) then False else m2
                | None \<Rightarrow> m2);
          m4 = (case word_count_f f of
                  Some n \<Rightarrow>
                    if js_strict_neq (Finite (int (word_count (properties st)))) n then False
                    else m3
                | None \<Rightarrow> m3);
          m5 = (case contains_character f of
                  Some ch \<Rightarrow>
                    (let hasChar = (ch \<in> set (map fst (character_frequency_map (properties st))))
                     in if \<not> hasChar then False else m4)
                | None \<Rightarrow> m4)
      in m5)"

fun list_loop :: "filters \<Rightarrow> stored list \<Rightarrow> stored list \<Rightarrow> stored list" where
  "list_loop f results [] = results"
| "list_loop f results (st # rest) =
     list_loop f (if record_matches st f then results @ [st] else results) rest"

record list_result =
  data :: "stored list"
  count :: nat
  filters_applied :: filters

definition storage_list :: "strings \<Rightarrow> filters \<Rightarrow> list_result" where
  "storage_list strings f =
     (let results = list_loop f [] (map_values strings)
      in \<lparr> data = results, count = length results, filters_applied = f \<rparr>)"

section \<open>parseNaturalQuery\<close>

text \<open>\<open>String.prototype.includes\<close>: the argument occurs somewhere as a contiguous run.\<close>

definition starts_with :: "jsstring \<Rightarrow> jsstring \<Rightarrow> bool" where
  "starts_with s pat = (take (length pat) s = pat)"

fun includes_str :: "jsstring \<Rightarrow> jsstring \<Rightarrow> bool" where
  "includes_str [] pat = (pat = [])"
| "includes_str (c # cs) pat = (starts_with (c # cs) pat \<or> includes_str cs pat)"

text \<open>
  The two regular expressions. \<open>match\<close> without the \<open>g\<close> flag tries the pattern at index 0,
  then 1, and so on, and returns the first success with its capture groups, or \<open>null\<close>
  (\<open>None\<close>). At one index the alternatives are tried left to right, and \<open>\d+\<close> is greedy
  with nothing after it, so it takes the whole run of digits \<open>0..9\<close>. A group of the
  alternative that was not taken is \<open>undefined\<close> (\<open>None\<close>).
\<close>

definition isDigit :: "16 word \<Rightarrow> bool" where
  "isDigit c = (0x30 \<le> c \<and> c \<le> 0x39)"

definition isLowerLetter :: "16 word \<Rightarrow> bool" where
  "isLowerLetter c = (0x61 \<le> c \<and> c \<le> 0x7A)"

definition literal_digits :: "jsstring \<Rightarrow> jsstring \<Rightarrow> jsstring option" where
  "literal_digits lit s =
     (if starts_with s lit
      then (let ds = takeWhile isDigit (drop (length lit) s)
            in if ds = [] then None else Some ds)
      else None)"

definition length_regex_at :: "jsstring \<Rightarrow> (jsstring option \<times> jsstring option) option" where
  "length_regex_at s =
     (case literal_digits (str ''longer than '') s of
        Some ds \<Rightarrow> Some (Some ds, None)
      | None \<Rightarrow>
         (case literal_digits (str ''more than '') s of
            Some ds \<Rightarrow> Some (None, Some ds)
          | None \<Rightarrow> None))"

fun match_length :: "jsstring \<Rightarrow> (jsstring option \<times> jsstring option) option" where
  "match_length [] = None"
| "match_length (c # cs) =
     (case length_regex_at (c # cs) of
        Some groups \<Rightarrow> Some groups
      | None \<Rightarrow> match_length cs)"

definition letter_regex_at :: "jsstring \<Rightarrow> jsstring option" where
  "letter_regex_at s =
     (if starts_with s (str ''letter '')
      then (case drop (length (str ''letter '')) s of
              [] \<Rightarrow> None
            | x # _ \<Rightarrow> if isLowerLetter x then Some [x] else None)
      else None)"

fun match_letter :: "jsstring \<Rightarrow> jsstring option" where
  "match_letter [] = None"
| "match_letter (c # cs) =
     (case letter_regex_at (c # cs) of
        Some g \<Rightarrow> Some g
      | None \<Rightarrow> match_letter cs)"

text \<open>
  \<open>lengthMatch[1] || lengthMatch[2]\<close>: the first group unless it is \<open>undefined\<close> or the
  empty string. \<open>parseInt(x, 10)\<close> skips leading white space, takes an optional sign and
  reads the leading run of decimal digits; without one (and for \<open>undefined\<close>, whose string
  form has none) it is \<open>NaN\<close>. The digits denote an integer (\<open>decimal\<close>), and the result
  is the double nearest to it (the engine of Node.js rounds the exact integer).
\<close>

definition or_else :: "jsstring option \<Rightarrow> jsstring option \<Rightarrow> jsstring option" where
  "or_else a b = (case a of Some x \<Rightarrow> if x \<noteq> [] then Some x else b | None \<Rightarrow> b)"

definition digit_value :: "16 word \<Rightarrow> int" where
  "digit_value c = int (unat c) - 48"

definition decimal :: "jsstring \<Rightarrow> int" where
  "decimal ds = foldl (\<lambda>acc d. 10 * acc + digit_value d) 0 ds"

definition parseInt10 :: "jsstring option \<Rightarrow> jsnum" where
  "parseInt10 x =
     (case x of
        None \<Rightarrow> NaN
      | Some s \<Rightarrow>
         (let t = dropWhile isWhiteSpace s;
              (sign, u) = (case t of
                             [] \<Rightarrow> (1, [])
                           | c # r \<Rightarrow> if c = 0x2D then (- 1, r)
                                      else if c = 0x2B then (1, r) else (1, t));
              ds = takeWhile isDigit u
          in if ds = [] then NaN else to_double (sign * decimal ds)))"

text \<open>
  Lines 168 to 195: the rules, applied to the lower-cased query in the order of the source,
  each assignment overwriting the key it sets. \<open>num + 1\<close> is an addition of doubles.
\<close>

definition heuristic_filters :: "jsstring \<Rightarrow> filters" where
  "heuristic_filters lowerQuery =
     (let f0 = no_filters;
          f1 = (if includes_str lowerQuery (str ''palindromic'') \<or> includes_str lowerQuery (str ''palindrome'')
                then f0\<lparr>is_palindrome_f := Some True\<rparr> else f0);
          f2 = (if includes_str lowerQuery (str ''single word'') \<or> includes_str lowerQuery (str ''one word'')
                then f1\<lparr>word_count_f := Some (Finite 1)\<rparr> else f1);
          f3 = (case match_length lowerQuery of
                  Some (g1, g2) \<Rightarrow>
                    (let num = parseInt10 (or_else g1 g2)
                     in f2\<lparr>min_length := Some (js_plus num (Finite 1))\<rparr>)
                | None \<Rightarrow> f2);
          f4 = (case match_letter lowerQuery of
                  Some g \<Rightarrow> f3\<lparr>contains_character := Some g\<rparr>
                | None \<Rightarrow> f3);
          f5 = (if includes_str lowerQuery (str ''vowel'')
                then f4\<lparr>contains_character := Some (str ''a'')\<rparr> else f4);
          f6 = (if includes_str lowerQuery (str ''z'')
                then f5\<lparr>contains_character := Some (str ''z'')\<rparr> else f5)
      in f6)"

text \<open>\<open>Object.keys(filters).length\<close>, and the truth value of a number that may be absent.\<close>

definition keys_count :: "filters \<Rightarrow> nat" where
  "keys_count f =
     (if is_palindrome_f f = None then 0 else 1) + (if min_length f = None then 0 else 1) +
     (if max_length f = None then 0 else 1) + (if word_count_f f = None then 0 else 1) +
     (if contains_character f = None then 0 else 1)"

definition truthy :: "jsnum option \<Rightarrow> bool" where
  "truthy x = (case x of None \<Rightarrow> False | Some n \<Rightarrow> n \<noteq> Finite 0 \<and> n \<noteq> NaN)"

text \<open>Lines 197 to 207: \<open>null\<close> for no key, the conflict test, the filters.\<close>

definition check_filters :: "filters \<Rightarrow> error + filters option" where
  "check_filters f =
     (if keys_count f = 0 then Inr None
      else if truthy (min_length f) \<and> truthy (max_length f) \<and>
              (case (min_length f, max_length f) of
                 (Some lo, Some hi) \<Rightarrow> js_less hi lo
               | _ \<Rightarrow> False)
      then Inl ConflictingFilters
      else Inr (Some f))"

definition parseNaturalQuery :: "(jsstring \<Rightarrow> jsstring) \<Rightarrow> jsstring \<Rightarrow> error + filters option" where
  "parseNaturalQuery lc query =
     (let lowerQuery = lc query;
          f = heuristic_filters lowerQuery
      in check_filters f)"

section \<open>Routes and the GET handlers\<close>

text \<open>
  The framework keeps the routes in the order of the \<open>app.post\<close>, \<open>app.get\<close> and
  \<open>app.delete\<close> calls (lines 105, 127, 139, 210, 240) and runs the first one whose method
  and path pattern fit the request; a handler that answers without calling \<open>next\<close> ends the
  dispatch. A path is its list of decoded segments. A literal segment of a pattern fits the
  same segment (compared without regard to ASCII case, the framework's default); a
  parameter \<open>:name\<close> fits any non-empty segment and binds it.
\<close>

datatype http_method = GET | POST | DELETE

datatype segment = Literal jsstring | Param jsstring

datatype handler =
  PostStrings | GetStringByValue | GetStrings | GetFilterByNaturalLanguage | DeleteStringByValue

fun match_path :: "segment list \<Rightarrow> jsstring list \<Rightarrow> (jsstring \<times> jsstring) list option" where
  "match_path [] [] = Some []"
| "match_path (Literal l # ps) (x # xs) =
     (if ascii_toLowerCase x = ascii_toLowerCase l then match_path ps xs else None)"
| "match_path (Param n # ps) (x # xs) =
     (if x = [] then None else map_option (\<lambda>params. (n, x) # params) (match_path ps xs))"
| "match_path _ _ = None"

definition routes :: "(http_method \<times> segment list \<times> handler) list" where
  "routes =
     [(POST, [Literal (str ''strings'')], PostStrings),
      (GET, [Literal (str ''strings''), Param (str ''value'')], GetStringByValue),
      (GET, [Literal (str ''strings'')], GetStrings),
      (GET, [Literal (str ''strings''), Literal (str ''filter-by-natural-language'')],
         GetFilterByNaturalLanguage),
      (DELETE, [Literal (str ''strings''), Param (str ''value'')], DeleteStringByValue)]"

fun dispatch ::
  "(http_method \<times> segment list \<times> handler) list \<Rightarrow> http_method \<Rightarrow> jsstring list
     \<Rightarrow> (handler \<times> (jsstring \<times> jsstring) list) option" where
  "dispatch [] m path = None"
| "dispatch ((m', pat, h) # rest) m path =
     (if m' = m
      then (case match_path pat path of
              Some params \<Rightarrow> Some (h, params)
            | None \<Rightarrow> dispatch rest m path)
      else dispatch rest m path)"

datatype body =
  ErrorBody jsstring
| StoredBody stored
| ListBody list_result
| InterpretedBody list_result jsstring filters

record response =
  status :: nat
  body :: body

text \<open>Lines 127 to 137.\<close>

definition get_string_by_value ::
  "(jsstring \<Rightarrow> jsstring) \<Rightarrow> (jsstring \<Rightarrow> jsstring) \<Rightarrow> strings \<Rightarrow> jsstring \<Rightarrow> response" where
  "get_string_by_value lc sha strings value =
     (let props = computeProperties lc sha value
      in case storage_get strings (sha256_hash props) of
           None \<Rightarrow> \<lparr> status = 404, body = ErrorBody (str ''String does not exist in the system'') \<rparr>
         | Some st \<Rightarrow> \<lparr> status = 200, body = StoredBody st \<rparr>)"

text \<open>
  Lines 139 to 164. Each query parameter is absent or a string; a string counts as true
  when it is not empty.
\<close>

record list_query =
  is_palindrome_q :: "jsstring option"
  min_length_q :: "jsstring option"
  max_length_q :: "jsstring option"
  word_count_q :: "jsstring option"
  contains_character_q :: "jsstring option"

definition given :: "jsstring option \<Rightarrow> bool" where
  "given x = (case x of None \<Rightarrow> False | Some s \<Rightarrow> s \<noteq> [])"

definition get_strings :: "strings \<Rightarrow> list_query \<Rightarrow> response" where
  "get_strings strings q =
     (if given (contains_character_q q) \<and>
         (case contains_character_q q of Some ch \<Rightarrow> length ch \<noteq> 1 | None \<Rightarrow> False)
      then \<lparr> status = 400, body = ErrorBody (str ''Invalid query parameter values or types'') \<rparr>
      else
        (let f0 = no_filters;
             f1 = (case is_palindrome_q q of
                     Some v \<Rightarrow> f0\<lparr>is_palindrome_f := Some (v = str ''true'')\<rparr>
                   | None \<Rightarrow> f0);
             f2 = (if given (min_length_q q)
                   then f1\<lparr>min_length := Some (parseInt10 (min_length_q q))\<rparr> else f1);
             f3 = (if given (max_length_q q)
                   then f2\<lparr>max_length := Some (parseInt10 (max_length_q q))\<rparr> else f2);
             f4 = (if given (word_count_q q)
                   then f3\<lparr>word_count_f := Some (parseInt10 (word_count_q q))\<rparr> else f3);
             f5 = (if given (contains_character_q q)
                   then f4\<lparr>contains_character := contains_character_q q\<rparr> else f4);
             result = storage_list strings f5
         in \<lparr> status = 200, body = ListBody result \<rparr>))"

text \<open>
  Lines 210 to 238. The query parameter is absent (\<open>None\<close>) or a string; \<open>!query\<close> holds for
  the absent and for the empty one. Whatever \<open>parseNaturalQuery\<close> throws is caught and
  answered with 422.
\<close>

definition get_filter_by_natural_language ::
  "(jsstring \<Rightarrow> jsstring) \<Rightarrow> strings \<Rightarrow> jsstring option \<Rightarrow> response" where
  "get_filter_by_natural_language lc strings query =
     (case query of
        None \<Rightarrow> \<lparr> status = 400, body = ErrorBody (str ''Unable to parse natural language query'') \<rparr>
      | Some q \<Rightarrow>
          if q = []
          then \<lparr> status = 400, body = ErrorBody (str ''Unable to parse natural language query'') \<rparr>
          else (case parseNaturalQuery lc q of
                  Inl err \<Rightarrow>
                    \<lparr> status = 422,
                      body = ErrorBody (str ''Query parsed but resulted in conflicting filters'') \<rparr>
                | Inr None \<Rightarrow>
                    \<lparr> status = 400, body = ErrorBody (str ''Unable to parse natural language query'') \<rparr>
                | Inr (Some parsed) \<Rightarrow>
                    \<lparr> status = 200, body = InterpretedBody (storage_list strings parsed) q parsed \<rparr>))"

text \<open>
  A GET request under these routes: the response of the handler the dispatch selects.
  \<open>None\<close> stands for a request that no route fits or that goes to the list handler of
  \<open>GET /strings\<close>, whose parameters are others (\<open>get_strings\<close> above).
\<close>

definition app_get ::
  "(jsstring \<Rightarrow> jsstring) \<Rightarrow> (jsstring \<Rightarrow> jsstring) \<Rightarrow> strings \<Rightarrow> jsstring list \<Rightarrow> jsstring option
     \<Rightarrow> response option" where
  "app_get lc sha strings path query =
     (case dispatch routes GET path of
        Some (GetStringByValue, params) \<Rightarrow>
          map_option (get_string_by_value lc sha strings) (map_get params (str ''value''))
      | Some (GetFilterByNaturalLanguage, params) \<Rightarrow>
          Some (get_filter_by_natural_language lc strings query)
      | _ \<Rightarrow> None)"

section \<open>The properties as the specification words them\<close>

text \<open>
  The definitions of this section follow the specification, not the source; the theorems
  below compare them with the functions above.
\<close>

subsection \<open>Word count\<close>

text \<open>
  The white-space-delimited tokens of a string: skip white space, take the maximal run of
  other code units, go on behind it.
\<close>

function tokens :: "jsstring \<Rightarrow> jsstring list" where
  "tokens s =
     (case dropWhile isWhiteSpace s of
        [] \<Rightarrow> []
      | c # cs \<Rightarrow>
          takeWhile (\<lambda>x. \<not> isWhiteSpace x) (c # cs)
            # tokens (dropWhile (\<lambda>x. \<not> isWhiteSpace x) (c # cs)))"
  by pat_completeness auto
termination
proof (relation "measure length")
  show "wf (measure length)" by simp
next
  fix s :: jsstring and c cs
  assume d: "dropWhile isWhiteSpace s = c # cs"
  have "\<not> isWhiteSpace c"
    using d hd_dropWhile [of isWhiteSpace s] by auto
  then have "length (dropWhile (\<lambda>x. \<not> isWhiteSpace x) (c # cs)) \<le> length cs"
    by (simp add: length_dropWhile_le)
  also have "length cs < length (dropWhile isWhiteSpace s)"
    by (simp add: d)
  also have "\<dots> \<le> length s"
    by (rule length_dropWhile_le)
  finally show "(dropWhile (\<lambda>x. \<not> isWhiteSpace x) (c # cs), s) \<in> measure length"
    by simp
qed

declare tokens.simps [simp del]

subsection \<open>Characters\<close>

text \<open>
  The specification counts characters in code units (\<open>length\<close> is the code-unit count). A
  surrogate pair is a code unit from \<open>D800\<close> to \<open>DBFF\<close> with one from \<open>DC00\<close> to \<open>DFFF\<close> right
  behind it: the two code units of one code point beyond the basic plane.
\<close>

fun has_surrogate_pair :: "jsstring \<Rightarrow> bool" where
  "has_surrogate_pair (c # d # cs) =
     ((0xD800 \<le> c \<and> c \<le> 0xDBFF \<and> 0xDC00 \<le> d \<and> d \<le> 0xDFFF) \<or> has_surrogate_pair (d # cs))"
| "has_surrogate_pair cs = False"

subsection \<open>Filtering\<close>

text \<open>The filter table: a record satisfies a filter set when it passes every filter present.\<close>

text \<open>
  A count \<open>k\<close> against a filter value: \<open>k \<ge> v\<close>, \<open>k \<le> v\<close> and \<open>k = v\<close> in the order of the
  numbers, where nothing is above, below or equal to \<open>NaN\<close>.
\<close>

definition at_least :: "nat \<Rightarrow> jsnum \<Rightarrow> bool" where
  "at_least k v =
     (case v of Finite n \<Rightarrow> n \<le> int k | NegInfinity \<Rightarrow> True | PosInfinity \<Rightarrow> False
      | NaN \<Rightarrow> False)"

definition at_most :: "nat \<Rightarrow> jsnum \<Rightarrow> bool" where
  "at_most k v =
     (case v of Finite n \<Rightarrow> int k \<le> n | NegInfinity \<Rightarrow> False | PosInfinity \<Rightarrow> True
      | NaN \<Rightarrow> False)"

definition equal_to :: "nat \<Rightarrow> jsnum \<Rightarrow> bool" where
  "equal_to k v = (v = Finite (int k))"

definition satisfies :: "stored \<Rightarrow> filters \<Rightarrow> bool" where
  "satisfies st f =
     ((\<forall>b. is_palindrome_f f = Some b \<longrightarrow> is_palindrome (properties st) = b) \<and>
      (\<forall>n. min_length f = Some n \<longrightarrow> at_least (length_p (properties st)) n) \<and>
      (\<forall>n. max_length f = Some n \<longrightarrow> at_most (length_p (properties st)) n) \<and>
      (\<forall>n. word_count_f f = Some n \<longrightarrow> equal_to (word_count (properties st)) n) \<and>
      (\<forall>ch. contains_character f = Some ch \<longrightarrow>
            ch \<in> fst ` set (character_frequency_map (properties st))))"

subsection \<open>The store's invariant and its reachable states\<close>

definition store_invariant :: "strings \<Rightarrow> bool" where
  "store_invariant strings =
     (list_all (\<lambda>(k, st). stored_id st = sha256_hash (properties st) \<and> k = stored_id st) strings \<and>
      distinct (map (\<lambda>(k, st). sha256_hash (properties st)) strings))"

inductive reachable :: "(jsstring \<Rightarrow> jsstring) \<Rightarrow> (jsstring \<Rightarrow> jsstring) \<Rightarrow> strings \<Rightarrow> bool"
  for lc sha where
  empty: "reachable lc sha []"
| create: "reachable lc sha strings \<Longrightarrow>
             reachable lc sha (snd (storage_create lc sha now strings value))"
| delete: "reachable lc sha strings \<Longrightarrow>
             reachable lc sha (snd (storage_delete strings hash))"

subsection \<open>The heuristic rules\<close>

text \<open>
  A phrase is present in a text when the text is something, the phrase, something. The first
  place where a pattern fits is the least index at which it does.
\<close>

definition occurs :: "jsstring \<Rightarrow> jsstring \<Rightarrow> bool" where
  "occurs phrase text = (\<exists>before after. text = before @ phrase @ after)"

text \<open>
  A number \<open>N\<close> in a text is a maximal run of the digits \<open>0\<close> to \<open>9\<close>, read in base ten:
  the last digit counts once, the one before it ten times, and so on. A letter is one of
  \<open>a\<close> to \<open>z\<close>.
\<close>

definition decimal_digit :: "16 word \<Rightarrow> bool" where
  "decimal_digit c = (c \<in> set (str ''0123456789''))"

definition digit_number :: "16 word \<Rightarrow> int" where
  "digit_number c = int (length (takeWhile (\<lambda>d. d \<noteq> c) (str ''0123456789'')))"

definition number_value :: "jsstring \<Rightarrow> int" where
  "number_value digits = horner_sum digit_number 10 (rev digits)"

definition small_letter :: "16 word \<Rightarrow> bool" where
  "small_letter c = (c \<in> set (str ''abcdefghijklmnopqrstuvwxyz''))"

definition number_at :: "jsstring \<Rightarrow> jsstring \<Rightarrow> nat \<Rightarrow> int option" where
  "number_at keyword text i =
     (let rest = drop i text; digits = takeWhile decimal_digit (drop (length keyword) rest)
      in if take (length keyword) rest = keyword \<and> digits \<noteq> []
         then Some (number_value digits) else None)"

definition length_phrase_at :: "jsstring \<Rightarrow> nat \<Rightarrow> int option" where
  "length_phrase_at text i =
     (case number_at (str ''longer than '') text i of
        Some n \<Rightarrow> Some n
      | None \<Rightarrow> number_at (str ''more than '') text i)"

definition first_length_number :: "jsstring \<Rightarrow> int option" where
  "first_length_number text =
     (case find (\<lambda>i. length_phrase_at text i \<noteq> None) [0..<length text] of
        None \<Rightarrow> None
      | Some i \<Rightarrow> length_phrase_at text i)"

definition letter_at :: "jsstring \<Rightarrow> nat \<Rightarrow> jsstring option" where
  "letter_at text i =
     (let rest = drop i text
      in if take 7 rest = str ''letter '' \<and> 7 < length rest \<and> small_letter (rest ! 7)
         then Some [rest ! 7] else None)"

definition first_letter :: "jsstring \<Rightarrow> jsstring option" where
  "first_letter text =
     (case find (\<lambda>i. letter_at text i \<noteq> None) [0..<length text] of
        None \<Rightarrow> None
      | Some i \<Rightarrow> letter_at text i)"

text \<open>
  The rules: each key is set by its own rule; of the three rules for \<open>contains_character\<close>
  the one evaluated last among those that fire decides (\<open>z\<close> over vowel over letter
  pattern); no rule sets \<open>max_length\<close>; no key at all is \<open>null\<close>.
\<close>

definition interpret_spec :: "jsstring \<Rightarrow> filters option" where
  "interpret_spec text =
     (let fs = \<lparr> is_palindrome_f =
                   (if occurs (str ''palindromic'') text \<or> occurs (str ''palindrome'') text
                    then Some True else None),
                 min_length = map_option (\<lambda>n. Finite (n + 1)) (first_length_number text),
                 max_length = None,
                 word_count_f =
                   (if occurs (str ''single word'') text \<or> occurs (str ''one word'') text
                    then Some (Finite 1) else None),
                 contains_character =
                   (if occurs (str ''z'') text then Some (str ''z'')
                    else if occurs (str ''vowel'') text then Some (str ''a'')
                    else first_letter text) \<rparr>
      in if fs = no_filters then None else Some fs)"

section \<open>Palindromes\<close>

lemma reverse_units: "join_empty (rev (split_units s)) = rev s"
  by (induction s) (simp_all add: join_empty_def split_units_def)

lemma ascii_lowering_ascii_toLowerCase: "ascii_lowering ascii_toLowerCase"
  by (simp add: ascii_lowering_def)

lemma is_palindrome_compute:
  "is_palindrome (computeProperties lc sha value) = (lc value = lc (rev value))"
  by (simp add: computeProperties_def Let_def reverse_units)

text \<open>
  Claim C4. For every string \<open>value\<close>, \<open>is_palindrome\<close> of its properties is true exactly
  when the lower-case form of \<open>value\<close> equals the lower-case form of \<open>value\<close> reversed, the
  reversal being that of the sequence of code units \<open>split("")\<close> yields; nothing is stripped.
  With a lower-casing that treats ASCII as the runtime does, \<open>"Level"\<close> is a palindrome and
  \<open>"level "\<close> (with the trailing space) is not.
\<close>

theorem C4_is_palindrome:
  "(is_palindrome (computeProperties lc sha value) \<longleftrightarrow> lc value = lc (rev value)) \<and>
   (ascii_lowering lc \<longrightarrow>
      is_palindrome (computeProperties lc sha (str ''Level'')) \<and>
      \<not> is_palindrome (computeProperties lc sha (str ''level '')))"
proof -
  have a: "is_ascii (str ''Level'')" "is_ascii (rev (str ''Level''))"
    "is_ascii (str ''level '')" "is_ascii (rev (str ''level ''))"
    by (simp_all add: is_ascii_def str_def)
  have l: "ascii_toLowerCase (str ''Level'') = ascii_toLowerCase (rev (str ''Level''))"
    by (simp add: ascii_toLowerCase_def lower_unit_def str_def)
  have n: "ascii_toLowerCase (str ''level '') \<noteq> ascii_toLowerCase (rev (str ''level ''))"
    by (simp add: ascii_toLowerCase_def lower_unit_def str_def)
  show ?thesis
    using a l n by (simp add: is_palindrome_compute ascii_lowering_def)
qed

theorem C4_is_palindrome_witness:
  "ascii_lowering ascii_toLowerCase \<and>
   is_palindrome (computeProperties ascii_toLowerCase (\<lambda>s. s) (str ''Noon'')) \<and>
   ascii_toLowerCase (str ''Noon'') = ascii_toLowerCase (rev (str ''Noon'')) \<and>
   is_palindrome (computeProperties ascii_toLowerCase (\<lambda>s. s) (str ''Level'')) \<and>
   \<not> is_palindrome (computeProperties ascii_toLowerCase (\<lambda>s. s) (str ''level ''))"
proof -
  have e: "ascii_toLowerCase (str ''Noon'') = ascii_toLowerCase (rev (str ''Noon''))"
    by (simp add: ascii_toLowerCase_def lower_unit_def str_def)
  show ?thesis
    using C4_is_palindrome [of ascii_toLowerCase "\<lambda>s. s" "str ''Noon''"]
      ascii_lowering_ascii_toLowerCase e
    by simp
qed

section \<open>Doubles that hold integers exactly\<close>

lemma exponent_above_small: "m < 2 ^ 53 \<Longrightarrow> exponent_above m = 0"
  by (subst exponent_above.simps) simp

lemma round_magnitude_small: "m < 2 ^ 53 \<Longrightarrow> round_magnitude m = Some m"
proof -
  assume m: "m < 2 ^ 53"
  have "(2::nat) ^ 53 < 2 ^ 1024" by simp
  with m have "m < 2 ^ 1024" by (rule less_trans)
  then have "\<not> 2 ^ 1024 \<le> m" by simp
  then show ?thesis
    by (simp add: round_magnitude_def exponent_above_small [OF m])
qed

lemma to_double_small: "\<bar>n\<bar> < 2 ^ 53 \<Longrightarrow> to_double n = Finite n"
proof -
  assume a: "\<bar>n\<bar> < 2 ^ 53"
  then have "nat \<bar>n\<bar> < 2 ^ 53" by simp
  then have "round_magnitude (nat \<bar>n\<bar>) = Some (nat \<bar>n\<bar>)" by (rule round_magnitude_small)
  then show ?thesis by (simp add: to_double_def)
qed

lemma to_double_2_53: "to_double 9007199254740992 = Finite 9007199254740992"
  by (simp add: to_double_def round_magnitude_def exponent_above.simps)

lemma to_double_exact: "0 \<le> n \<Longrightarrow> n \<le> 2 ^ 53 \<Longrightarrow> to_double n = Finite n"
proof -
  assume "0 \<le> n" "n \<le> 2 ^ 53"
  then consider "\<bar>n\<bar> < 2 ^ 53" | "n = 2 ^ 53" by fastforce
  then show ?thesis by cases (simp_all add: to_double_small to_double_2_53)
qed

lemma successor_exact:
  "0 \<le> n \<Longrightarrow> n < 2 ^ 53 \<Longrightarrow> js_plus (to_double n) (Finite 1) = Finite (n + 1)"
  by (simp add: to_double_small to_double_exact)

lemma successor_2_53:
  "js_plus (to_double 9007199254740992) (Finite 1) = Finite 9007199254740992"
  by (simp add: to_double_def round_magnitude_def exponent_above.simps)

section \<open>The conflict test of parseNaturalQuery\<close>

lemma heuristic_filters_max_length: "max_length (heuristic_filters q) = None"
  by (simp add: heuristic_filters_def no_filters_def Let_def split: option.splits prod.splits)

lemma check_filters_no_max:
  "max_length f = None \<Longrightarrow> check_filters f = Inr (if keys_count f = 0 then None else Some f)"
  by (simp add: check_filters_def truthy_def)

text \<open>
  Claim C10. For every query string, \<open>parseNaturalQuery\<close> returns normally, with \<open>null\<close> or
  a filter set, and never throws the conflicting-filters error: no rule assigns
  \<open>max_length\<close>, so the test for contradictory bounds cannot succeed.
\<close>

theorem C10_never_conflicting:
  "(\<exists>r. parseNaturalQuery lc query = Inr r) \<and>
   parseNaturalQuery lc query \<noteq> Inl ConflictingFilters \<and>
   max_length (heuristic_filters (lc query)) = None"
  by (simp add: parseNaturalQuery_def Let_def heuristic_filters_max_length check_filters_no_max)

text \<open>
  Claim C9, as amended. The conflict test throws exactly on a filter set that holds both
  \<open>min_length\<close> and \<open>max_length\<close>, both non-zero (and not \<open>NaN\<close>), with
  \<open>min_length > max_length\<close> (such as
  \<open>min_length = 10\<close>, \<open>max_length = 3\<close>); \<open>parseNaturalQuery\<close> applies it to the filter set
  the rules derive, and that set never holds \<open>max_length\<close>.
\<close>

theorem C9_conflict_check:
  "(check_filters f = Inl ConflictingFilters \<longleftrightarrow>
      (\<exists>lo hi. min_length f = Some lo \<and> max_length f = Some hi \<and>
               lo \<noteq> Finite 0 \<and> lo \<noteq> NaN \<and> hi \<noteq> Finite 0 \<and> hi \<noteq> NaN \<and>
               js_less hi lo)) \<and>
   (check_filters (no_filters\<lparr>min_length := Some (Finite a), max_length := Some (Finite b)\<rparr>)
      = Inl ConflictingFilters \<longleftrightarrow> a \<noteq> 0 \<and> b \<noteq> 0 \<and> a > b) \<and>
   check_filters (no_filters\<lparr>min_length := Some (Finite 10), max_length := Some (Finite 3)\<rparr>)
     = Inl ConflictingFilters \<and>
   max_length (heuristic_filters (lc query)) = None \<and>
   parseNaturalQuery lc query = check_filters (heuristic_filters (lc query))"
proof -
  have c: "check_filters f = Inl ConflictingFilters \<longleftrightarrow>
      (\<exists>lo hi. min_length f = Some lo \<and> max_length f = Some hi \<and>
               lo \<noteq> Finite 0 \<and> lo \<noteq> NaN \<and> hi \<noteq> Finite 0 \<and> hi \<noteq> NaN \<and>
               js_less hi lo)" for f
    by (cases "min_length f"; cases "max_length f")
       (simp_all add: check_filters_def truthy_def keys_count_def)
  have i: "check_filters (no_filters\<lparr>min_length := Some (Finite a), max_length := Some (Finite b)\<rparr>)
      = Inl ConflictingFilters \<longleftrightarrow> a \<noteq> 0 \<and> b \<noteq> 0 \<and> a > b"
    by (simp add: c)
  have e: "check_filters (no_filters\<lparr>min_length := Some (Finite 10), max_length := Some (Finite 3)\<rparr>)
      = Inl ConflictingFilters"
    by (simp add: c)
  have p: "parseNaturalQuery lc query = check_filters (heuristic_filters (lc query))"
    by (simp add: parseNaturalQuery_def)
  show ?thesis
    using c [of f] i e p heuristic_filters_max_length [of "lc query"] by (intro conjI)
qed

text \<open>
  The claim as the specification has it, that some query derives contradictory bounds and
  is rejected for them, fails: there is no such query, whatever the lower-casing.
\<close>

theorem C9_no_query_conflicts:
  "\<not> (\<exists>lc query lo hi.
        min_length (heuristic_filters (lc query)) = Some lo \<and>
        max_length (heuristic_filters (lc query)) = Some hi \<and> js_less hi lo \<and>
        parseNaturalQuery lc query = Inl ConflictingFilters)"
  by (simp add: heuristic_filters_max_length)

section \<open>Word count\<close>

lemma tokens_Nil [simp]: "tokens [] = []"
  by (simp add: tokens.simps)

lemma tokens_skip: "tokens (dropWhile isWhiteSpace s) = tokens s"
  by (subst (1 2) tokens.simps) simp

lemma tokens_all_ws: "list_all isWhiteSpace s \<Longrightarrow> tokens s = []"
proof -
  assume "list_all isWhiteSpace s"
  then have d: "dropWhile isWhiteSpace s = []" by (simp add: list_all_iff)
  show ?thesis by (subst tokens.simps) (simp add: d)
qed

lemma tokens_word:
  "\<not> isWhiteSpace c \<Longrightarrow>
   tokens (c # cs) = takeWhile (\<lambda>x. \<not> isWhiteSpace x) (c # cs)
                      # tokens (dropWhile (\<lambda>x. \<not> isWhiteSpace x) (c # cs))"
  by (subst tokens.simps) simp

lemma split_ws_tokens:
  "s = [] \<or> \<not> isWhiteSpace (last s) \<Longrightarrow>
   split_ws piece s = (piece @ takeWhile (\<lambda>x. \<not> isWhiteSpace x) s)
                        # tokens (dropWhile (\<lambda>x. \<not> isWhiteSpace x) s)"
proof (induction piece s rule: split_ws.induct)
  case (1 piece)
  then show ?case by simp
next
  case (2 piece c cs)
  show ?case
  proof (cases "isWhiteSpace c")
    case True
    let ?t = "dropWhile isWhiteSpace cs"
    from "2.prems" True have ne: "cs \<noteq> []" and l: "\<not> isWhiteSpace (last cs)"
      by (auto split: if_splits)
    from ne l have "last cs \<in> set cs" "\<not> isWhiteSpace (last cs)" by auto
    then have tne: "?t \<noteq> []" by (auto simp: dropWhile_eq_Nil_conv)
    then obtain d ds where t: "?t = d # ds" by (cases ?t) auto
    have nd: "\<not> isWhiteSpace d" using t hd_dropWhile [of isWhiteSpace cs] by auto
    have "last ?t = last cs" using tne ne
      by (metis append_Nil2 last_appendR takeWhile_dropWhile_id)
    with l have "?t = [] \<or> \<not> isWhiteSpace (last ?t)" by simp
    from "2.IH"(1) [OF True this]
    have "split_ws [] ?t = takeWhile (\<lambda>x. \<not> isWhiteSpace x) ?t
            # tokens (dropWhile (\<lambda>x. \<not> isWhiteSpace x) ?t)" by simp
    also have "\<dots> = tokens ?t" using nd by (simp add: t tokens_word)
    also have "\<dots> = tokens (c # cs)"
      using tokens_skip [of "c # cs"] True by simp
    finally show ?thesis using True by simp
  next
    case False
    from "2.prems" have "cs = [] \<or> \<not> isWhiteSpace (last cs)" by (auto split: if_splits)
    from "2.IH"(2) [OF False this] False show ?thesis by simp
  qed
qed

lemma tokens_append_ws:
  "list_all isWhiteSpace w \<Longrightarrow> tokens (u @ w) = tokens u"
proof (induction u rule: tokens.induct)
  case (1 s)
  show ?case
  proof (cases "dropWhile isWhiteSpace s")
    case Nil
    then have "list_all isWhiteSpace s" by (simp add: dropWhile_eq_Nil_conv list_all_iff)
    with "1.prems" have "list_all isWhiteSpace (s @ w)" by simp
    then have "tokens (s @ w) = []" by (rule tokens_all_ws)
    moreover have "tokens s = []" using \<open>list_all isWhiteSpace s\<close> by (rule tokens_all_ws)
    ultimately show ?thesis by simp
  next
    case (Cons c cs)
    let ?nw = "\<lambda>x. \<not> isWhiteSpace x"
    have nc: "\<not> isWhiteSpace c" using Cons hd_dropWhile [of isWhiteSpace s] by auto
    have ex: "\<not> (\<forall>x\<in>set s. isWhiteSpace x)"
    proof
      assume "\<forall>x\<in>set s. isWhiteSpace x"
      then have "dropWhile isWhiteSpace s = []" by simp
      with Cons show False by simp
    qed
    from ex obtain x where "x \<in> set s" "\<not> isWhiteSpace x" by auto
    then have "dropWhile isWhiteSpace (s @ w) = dropWhile isWhiteSpace s @ w"
      by (rule dropWhile_append1)
    then have dw: "dropWhile isWhiteSpace (s @ w) = (c # cs) @ w"
      by (simp add: Cons)
    have tw: "takeWhile ?nw w = []" using "1.prems" by (cases w) auto
    have IH: "tokens (dropWhile ?nw (c # cs) @ w) = tokens (dropWhile ?nw (c # cs))"
      using "1.IH" [OF Cons] "1.prems" by simp
    have lhs: "tokens (s @ w) = takeWhile ?nw ((c # cs) @ w) # tokens (dropWhile ?nw ((c # cs) @ w))"
      using dw nc tokens_skip [of "s @ w"] tokens_word [of c "cs @ w"] by simp
    have rhs: "tokens s = takeWhile ?nw (c # cs) # tokens (dropWhile ?nw (c # cs))"
      using Cons nc tokens_skip [of s] tokens_word [of c cs] by simp
    show ?thesis
    proof (cases "\<forall>x\<in>set (c # cs). ?nw x")
      case True
      then have "takeWhile ?nw ((c # cs) @ w) = c # cs"
        "dropWhile ?nw ((c # cs) @ w) = dropWhile ?nw w" "dropWhile ?nw (c # cs) = []"
        using tw by (simp_all add: takeWhile_append dropWhile_append)
      moreover have "tokens (dropWhile ?nw w) = []"
        using "1.prems" by (intro tokens_all_ws) (auto simp: list_all_iff dest: set_dropWhileD)
      moreover have "takeWhile ?nw (c # cs) = c # cs" using True by simp
      ultimately show ?thesis using lhs rhs by simp
    next
      case False
      then obtain y where y: "y \<in> set (c # cs)" "\<not> ?nw y" by blast
      have "takeWhile ?nw ((c # cs) @ w) = takeWhile ?nw (c # cs)"
        "dropWhile ?nw ((c # cs) @ w) = dropWhile ?nw (c # cs) @ w"
        using y by (rule takeWhile_append1, rule dropWhile_append1)
      then show ?thesis using lhs rhs IH by simp
    qed
  qed
qed

lemma tokens_trim: "tokens (trim s) = tokens s"
proof -
  let ?u = "dropWhile isWhiteSpace s"
  have "?u = rev (dropWhile isWhiteSpace (rev ?u)) @ rev (takeWhile isWhiteSpace (rev ?u))"
    by (metis rev_append rev_rev_ident takeWhile_dropWhile_id)
  moreover have "list_all isWhiteSpace (rev (takeWhile isWhiteSpace (rev ?u)))"
    by (auto simp: list_all_iff dest: set_takeWhileD)
  ultimately have "tokens ?u = tokens (trim s)"
    using tokens_append_ws by (metis trim_def)
  then show ?thesis by (simp add: tokens_skip)
qed

lemma trim_shape: "trim s = [] \<or> (\<not> isWhiteSpace (hd (trim s)) \<and> \<not> isWhiteSpace (last (trim s)))"
proof (cases "trim s = []")
  case True then show ?thesis by simp
next
  case False
  let ?u = "dropWhile isWhiteSpace s"
  let ?r = "dropWhile isWhiteSpace (rev ?u)"
  have r: "?r \<noteq> []" using False by (simp add: trim_def)
  then have "\<not> isWhiteSpace (hd ?r)" using hd_dropWhile by blast
  then have l: "\<not> isWhiteSpace (last (trim s))" using r by (simp add: trim_def last_rev)
  have une: "?u \<noteq> []"
  proof
    assume "?u = []"
    then have "?r = []" by (simp del: dropWhile_eq_Nil_conv)
    with r show False by simp
  qed
  then have hu: "\<not> isWhiteSpace (hd ?u)" using hd_dropWhile by blast
  have "last ?r = last (rev ?u)" using r
    by (metis append_Nil2 last_appendR takeWhile_dropWhile_id)
  then have "hd (trim s) = hd ?u" using r une by (simp add: trim_def hd_rev last_rev)
  with hu l show ?thesis by simp
qed

lemma all_dropWhile: "(\<forall>x\<in>set (dropWhile P s). P x) \<longleftrightarrow> (\<forall>x\<in>set s. P x)"
  by (induction s) auto

lemma trim_empty_iff: "trim s = [] \<longleftrightarrow> list_all isWhiteSpace s"
  by (simp add: trim_def list_all_iff all_dropWhile)

lemma tokens_empty_iff: "tokens s = [] \<longleftrightarrow> list_all isWhiteSpace s"
proof
  assume "tokens s = []"
  then show "list_all isWhiteSpace s"
    by (subst (asm) tokens.simps) (auto simp: dropWhile_eq_Nil_conv list_all_iff split: list.splits)
qed (rule tokens_all_ws)

lemma split_trim:
  "split_ws [] (trim s) = (if list_all isWhiteSpace s then [[]] else tokens s)"
proof (cases "trim s")
  case Nil
  then show ?thesis using trim_empty_iff [of s] by simp
next
  case (Cons c cs)
  then have nc: "\<not> isWhiteSpace c" and nl: "\<not> isWhiteSpace (last (trim s))"
    using trim_shape [of s] by auto
  have "split_ws [] (trim s) = takeWhile (\<lambda>x. \<not> isWhiteSpace x) (trim s)
            # tokens (dropWhile (\<lambda>x. \<not> isWhiteSpace x) (trim s))"
    using split_ws_tokens [of "trim s" "[]"] nl by simp
  also have "\<dots> = tokens (trim s)" using nc Cons by (simp add: tokens_word)
  finally have "split_ws [] (trim s) = tokens s" by (simp add: tokens_trim)
  moreover have "\<not> list_all isWhiteSpace s" using Cons trim_empty_iff [of s] by simp
  ultimately show ?thesis by simp
qed

text \<open>
  Claim C5. For every string \<open>value\<close>, the pieces \<open>value.trim().split(/\s+/)\<close> yields are
  the white-space-delimited tokens of \<open>value\<close>, unless \<open>value\<close> is empty after trimming
  (the empty string or white space only), when there is the one empty piece. So
  \<open>word_count\<close> is the number of tokens, and 1 for a value that is empty after trimming;
  \<open>"hello world"\<close> has 2 words, \<open>"   "\<close> and \<open>""\<close> have 1.
\<close>

theorem C5_word_count:
  "split_ws [] (trim value) = (if list_all isWhiteSpace value then [[]] else tokens value) \<and>
   word_count (computeProperties lc sha value)
     = (if list_all isWhiteSpace value then 1 else length (tokens value)) \<and>
   (trim value = [] \<longleftrightarrow> list_all isWhiteSpace value) \<and>
   (trim value = [] \<longrightarrow> word_count (computeProperties lc sha value) = 1) \<and>
   word_count (computeProperties lc sha (str ''hello world'')) = 2 \<and>
   word_count (computeProperties lc sha (str ''   '')) = 1 \<and>
   word_count (computeProperties lc sha []) = 1"
proof -
  have w: "word_count (computeProperties lc sha v) = length (split_ws [] (trim v))" for v
    by (simp add: computeProperties_def Let_def)
  have "word_count (computeProperties lc sha (str ''hello world'')) = 2"
    by (simp add: w str_def trim_def isWhiteSpace_def)
  moreover have "word_count (computeProperties lc sha (str ''   '')) = 1"
    by (simp add: w str_def trim_def isWhiteSpace_def)
  moreover have "word_count (computeProperties lc sha []) = 1"
    by (simp add: w trim_def)
  ultimately show ?thesis
    by (simp add: w split_trim trim_empty_iff)
qed

theorem C5_word_count_witness:
  "word_count (computeProperties ascii_toLowerCase (\<lambda>s. s) (str '' one  two three '')) = 3 \<and>
   tokens (str '' one  two three '') = [str ''one'', str ''two'', str ''three'']"
proof -
  let ?v = "str '' one  two three ''"
  note c5 = C5_word_count [of ?v ascii_toLowerCase "\<lambda>s. s"]
  have s: "split_ws [] (trim ?v) = [str ''one'', str ''two'', str ''three'']"
    by (simp add: str_def trim_def isWhiteSpace_def)
  have n: "\<not> list_all isWhiteSpace ?v"
    by (simp add: str_def isWhiteSpace_def)
  from c5 have "split_ws [] (trim ?v) = (if list_all isWhiteSpace ?v then [[]] else tokens ?v)"
    by (rule conjunct1)
  with n have "split_ws [] (trim ?v) = tokens ?v" by simp
  with s have t: "tokens ?v = [str ''one'', str ''two'', str ''three'']" by simp
  from c5 n have "word_count (computeProperties ascii_toLowerCase (\<lambda>s. s) ?v) = length (tokens ?v)"
    by simp
  with t show ?thesis by simp
qed

section \<open>The frequency table\<close>

lemma map_get_map_of: "map_get m k = map_of m k"
  by (induction m) auto

lemma map_has_keys: "map_has m k \<longleftrightarrow> k \<in> fst ` set m"
  by (induction m) auto

lemma map_set_keys:
  "map fst (map_set m k v) = (if k \<in> fst ` set m then map fst m else map fst m @ [k])"
  by (induction m) force+

lemma map_set_absent: "k \<notin> fst ` set m \<Longrightarrow> map_set m k v = m @ [(k, v)]"
  by (induction m) auto

lemma map_get_map_set: "map_get (map_set m k v) k' = (if k' = k then Some v else map_get m k')"
  by (induction m) auto

lemma count_chars_keys: "fst ` set (count_chars freq chs) = fst ` set freq \<union> set chs"
proof (induction chs arbitrary: freq)
  case Nil
  then show ?case by simp
next
  case (Cons ch chs)
  have "fst ` set (map_set freq ch v) = insert ch (fst ` set freq)" for v
    using map_set_keys [of freq ch v] by (metis (no_types, lifting) insert_absorb list.set_map
      set_append list.simps(15) Un_insert_right sup_bot.right_neutral empty_set)
  then show ?case by (simp add: Cons.IH)
qed

lemma count_chars_distinct:
  "distinct (map fst freq) \<Longrightarrow> distinct (map fst (count_chars freq chs))"
proof (induction chs arbitrary: freq)
  case Nil
  then show ?case by simp
next
  case (Cons ch chs)
  have "distinct (map fst (map_set freq ch v))" for v
    using Cons.prems by (simp add: map_set_keys)
  then show ?case by (simp add: Cons.IH)
qed

lemma count_chars_get:
  "map_get (count_chars freq chs) k =
     (if k \<in> set chs
      then Some ((case map_get freq k of None \<Rightarrow> 0 | Some n \<Rightarrow> n) + count_list chs k)
      else map_get freq k)"
  by (induction chs arbitrary: freq) (auto simp: map_get_map_set)

lemma concat_string_iterator: "concat (string_iterator s) = s"
  by (induction s rule: string_iterator.induct) auto

lemma string_iterator_no_pair:
  "\<not> has_surrogate_pair s \<Longrightarrow> string_iterator s = split_units s"
  by (induction s rule: string_iterator.induct)
     (auto simp: split_units_def is_high_surrogate_def is_low_surrogate_def)

lemma count_list_units: "count_list (map (\<lambda>c. [c]) s) [c] = count_list s c"
  by (induction s) auto

text \<open>
  Claim C6, as amended. For every string \<open>value\<close> that holds no surrogate pair, the
  frequency table has each distinct character (code unit) of \<open>value\<close> as a key, once, and
  no other key, and maps it to the number of its occurrences (compared with their case),
  and \<open>unique_characters\<close> is the number of distinct characters. In general the keys are
  the code points the string iterator yields, a surrogate pair being one key of two code
  units. \<open>"aabb"\<close> has 2 unique characters and the table \<open>{a: 2, b: 2}\<close>; the five code
  units of U+1F600, \<open>a\<close>, U+1F600 have 2 unique characters.
\<close>

theorem C6_character_frequency:
  "(\<not> has_surrogate_pair value \<longrightarrow>
      distinct (map fst (character_frequency_map (computeProperties lc sha value))) \<and>
      fst ` set (character_frequency_map (computeProperties lc sha value))
        = (\<lambda>c. [c]) ` set value \<and>
      map_of (character_frequency_map (computeProperties lc sha value)) [c]
        = (if c \<in> set value then Some (count_list value c) else None) \<and>
      unique_characters (computeProperties lc sha value) = card (set value)) \<and>
   distinct (map fst (character_frequency_map (computeProperties lc sha value))) \<and>
   fst ` set (character_frequency_map (computeProperties lc sha value))
     = set (string_iterator value) \<and>
   map_of (character_frequency_map (computeProperties lc sha value)) ch
     = (if ch \<in> set (string_iterator value)
        then Some (count_list (string_iterator value) ch) else None) \<and>
   unique_characters (computeProperties lc sha value) = card (set (string_iterator value)) \<and>
   concat (string_iterator value) = value \<and>
   unique_characters (computeProperties lc sha (str ''aabb'')) = 2 \<and>
   character_frequency_map (computeProperties lc sha (str ''aabb''))
     = [(str ''a'', 2), (str ''b'', 2)] \<and>
   unique_characters
     (computeProperties lc sha [0xD83D, 0xDE00, 0x61, 0xD83D, 0xDE00]) = 2 \<and>
   character_frequency_map
     (computeProperties lc sha [0xD83D, 0xDE00, 0x61, 0xD83D, 0xDE00])
     = [([0xD83D, 0xDE00], 2), ([0x61], 1)]"
proof -
  let ?chs = "string_iterator value"
  let ?m = "count_chars [] ?chs"
  have m: "character_frequency_map (computeProperties lc sha v) = count_chars [] (string_iterator v)"
    and u: "unique_characters (computeProperties lc sha v) = length (count_chars [] (string_iterator v))"
    for v
    by (simp_all add: computeProperties_def Let_def)
  have d: "distinct (map fst ?m)" by (rule count_chars_distinct) simp
  have k: "fst ` set ?m = set ?chs" by (simp add: count_chars_keys)
  have "length ?m = length (map fst ?m)" by simp
  also have "\<dots> = card (set (map fst ?m))" using d by (rule distinct_card [symmetric])
  also have "\<dots> = card (set ?chs)" using k by simp
  finally have c: "length ?m = card (set ?chs)" .
  have g: "map_of ?m x = (if x \<in> set ?chs then Some (count_list ?chs x) else None)" for x
    using count_chars_get [of "[]" ?chs x] by (simp add: map_get_map_of)
  have e: "count_chars [] (string_iterator (str ''aabb'')) = [(str ''a'', 2), (str ''b'', 2)]"
    by (simp add: str_def is_high_surrogate_def)
  have general:
    "distinct (map fst (character_frequency_map (computeProperties lc sha value))) \<and>
     fst ` set (character_frequency_map (computeProperties lc sha value)) = set ?chs \<and>
     map_of (character_frequency_map (computeProperties lc sha value)) ch
       = (if ch \<in> set ?chs then Some (count_list ?chs ch) else None) \<and>
     unique_characters (computeProperties lc sha value) = card (set ?chs) \<and>
     concat ?chs = value"
    using d k c g [of ch] by (simp add: m u concat_string_iterator)
  have units:
    "distinct (map fst (character_frequency_map (computeProperties lc sha value))) \<and>
     fst ` set (character_frequency_map (computeProperties lc sha value))
       = (\<lambda>c. [c]) ` set value \<and>
     map_of (character_frequency_map (computeProperties lc sha value)) [c]
       = (if c \<in> set value then Some (count_list value c) else None) \<and>
     unique_characters (computeProperties lc sha value) = card (set value)"
    if n: "\<not> has_surrogate_pair value"
  proof -
    have i: "?chs = map (\<lambda>c. [c]) value"
      using string_iterator_no_pair [OF n] by (simp add: split_units_def)
    have "card ((\<lambda>c. [c]) ` set value) = card (set value)"
      by (rule card_image) (simp add: inj_on_def)
    moreover have "([c] \<in> (\<lambda>c. [c]) ` set value) = (c \<in> set value)" by auto
    ultimately show ?thesis
      using d k c g [of "[c]"] by (simp add: m u i count_list_units)
  qed
  have examples:
    "unique_characters (computeProperties lc sha (str ''aabb'')) = 2 \<and>
     character_frequency_map (computeProperties lc sha (str ''aabb''))
       = [(str ''a'', 2), (str ''b'', 2)] \<and>
     unique_characters
       (computeProperties lc sha [0xD83D, 0xDE00, 0x61, 0xD83D, 0xDE00]) = 2 \<and>
     character_frequency_map
       (computeProperties lc sha [0xD83D, 0xDE00, 0x61, 0xD83D, 0xDE00])
       = [([0xD83D, 0xDE00], 2), ([0x61], 1)]"
    by (simp add: m u e is_high_surrogate_def is_low_surrogate_def)
  from units general examples show ?thesis by blast
qed

theorem C6_character_frequency_witness:
  "\<not> has_surrogate_pair (str ''Abba'') \<and>
   map_of (character_frequency_map (computeProperties ascii_toLowerCase (\<lambda>s. s) (str ''Abba'')))
      (str ''b'') = Some 2 \<and>
   count_list (str ''Abba'') (of_char CHR ''b'') = 2 \<and>
   unique_characters (computeProperties ascii_toLowerCase (\<lambda>s. s) (str ''Abba'')) = 3 \<and>
   card (set (str ''Abba'')) = 3"
proof -
  have n: "\<not> has_surrogate_pair (str ''Abba'')" by (simp add: str_def)
  have b: "str ''b'' = [of_char CHR ''b'']" by (simp add: str_def)
  have u: "unique_characters (computeProperties ascii_toLowerCase (\<lambda>s. s) (str ''Abba'')) = 3"
    by (simp add: computeProperties_def str_def is_high_surrogate_def)
  have o: "of_char CHR ''b'' \<in> set (str ''Abba'')" by (simp add: str_def)
  have cl: "count_list (str ''Abba'') (of_char CHR ''b'') = (2::nat)" by (simp add: str_def)
  note c6 = C6_character_frequency
    [of "str ''Abba''" ascii_toLowerCase "\<lambda>s. s" "of_char CHR ''b''" "str ''b''"]
  from c6 n have
    "map_of (character_frequency_map (computeProperties ascii_toLowerCase (\<lambda>s. s) (str ''Abba'')))
       [of_char CHR ''b''] = Some (count_list (str ''Abba'') (of_char CHR ''b''))"
    and "unique_characters (computeProperties ascii_toLowerCase (\<lambda>s. s) (str ''Abba''))
       = card (set (str ''Abba''))"
    using o by simp_all
  with n b u cl show ?thesis by simp
qed

text \<open>
  The claim as the specification has it fails where a surrogate pair occurs: the value
  made of the two code units of U+1F600 has length 2 and two distinct code units, but one
  unique character, and its table has neither code unit as a key.
\<close>

theorem C6_surrogate_pair_counted_once:
  "\<forall>lc sha.
     length_p (computeProperties lc sha [0xD83D, 0xDE00]) = 2 \<and>
     card (set [0xD83D, 0xDE00 :: 16 word]) = 2 \<and>
     unique_characters (computeProperties lc sha [0xD83D, 0xDE00]) = 1 \<and>
     character_frequency_map (computeProperties lc sha [0xD83D, 0xDE00])
       = [([0xD83D, 0xDE00], 1)] \<and>
     map_of (character_frequency_map (computeProperties lc sha [0xD83D, 0xDE00])) [0xD83D]
       = None"
  by (simp add: computeProperties_def is_high_surrogate_def is_low_surrogate_def)

section \<open>Storage.create and Storage.delete\<close>

lemma list_all_inv_append:
  "store_invariant (strings @ [(k, st)]) \<longleftrightarrow>
     store_invariant strings \<and> stored_id st = sha256_hash (properties st) \<and> k = stored_id st \<and>
     sha256_hash (properties st) \<notin> (\<lambda>(k, st). sha256_hash (properties st)) ` set strings"
  by (auto simp: store_invariant_def)

lemma invariant_keys:
  "store_invariant strings \<Longrightarrow>
   fst ` set strings = (\<lambda>(k, st). sha256_hash (properties st)) ` set strings"
  by (force simp: store_invariant_def list_all_iff)

lemma map_delete_subset: "set (map_delete m k) \<subseteq> set m"
  by (induction m) (auto split: if_splits)

lemma distinct_filter_le_1:
  "distinct (map g xs) \<Longrightarrow> length (filter (\<lambda>x. g x = d) xs) \<le> 1"
proof (induction xs)
  case Nil
  then show ?case by simp
next
  case (Cons a xs)
  show ?case
  proof (cases "g a = d")
    case True
    from Cons.prems have "g a \<notin> g ` set xs" by simp
    with True have "\<forall>x\<in>set xs. g x \<noteq> d" by blast
    then have "filter (\<lambda>x. g x = d) xs = []" by (simp add: filter_empty_conv)
    with True show ?thesis by simp
  next
    case False
    with Cons show ?thesis by simp
  qed
qed

lemma map_delete_distinct: "distinct (map g m) \<Longrightarrow> distinct (map g (map_delete m k))"
proof (induction m)
  case Nil
  then show ?case by simp
next
  case (Cons a m)
  obtain k' v where a: "a = (k', v)" by (cases a)
  show ?case using Cons map_delete_subset [of m k] by (auto simp: a)
qed

lemma store_invariant_delete:
  "store_invariant strings \<Longrightarrow> store_invariant (snd (storage_delete strings hash))"
  using map_delete_subset [of strings hash]
  by (auto simp: store_invariant_def storage_delete_def list_all_iff map_delete_distinct)

lemma sha256_hash_compute: "sha256_hash (computeProperties lc sha value) = sha value"
  by (simp add: computeProperties_def Let_def)

lemma storage_create_cases:
  "storage_create lc sha now strings value =
     (if sha value \<in> fst ` set strings then (Inl AlreadyExists, strings)
      else (Inr \<lparr> stored_id = sha value, stored_value = value,
                  properties = computeProperties lc sha value, created_at = now \<rparr>,
            strings @ [(sha value,
                        \<lparr> stored_id = sha value, stored_value = value,
                          properties = computeProperties lc sha value, created_at = now \<rparr>)]))"
  by (simp add: storage_create_def Let_def sha256_hash_compute map_has_keys map_set_absent)

lemma store_invariant_create:
  assumes "store_invariant strings"
  shows "store_invariant (snd (storage_create lc sha now strings value))"
proof (cases "sha value \<in> fst ` set strings")
  case True
  then show ?thesis using assms by (simp add: storage_create_cases)
next
  case False
  with invariant_keys [OF assms]
  have "sha value \<notin> (\<lambda>(k, st). sha256_hash (properties st)) ` set strings" by simp
  then show ?thesis
    using assms False by (simp add: storage_create_cases list_all_inv_append sha256_hash_compute)
qed

lemma store_invariant_empty: "store_invariant []"
  by (simp add: store_invariant_def)

text \<open>
  Claim C2. In every store reachable from the empty one by creations and deletions, each
  stored record has \<open>id\<close> equal to the digest in its properties, its key in the map is
  that \<open>id\<close>, and no two records have the same digest.
\<close>

theorem C2_store_invariant:
  "reachable lc sha strings \<Longrightarrow>
   store_invariant strings \<and>
   (\<forall>k st. (k, st) \<in> set strings \<longrightarrow> stored_id st = sha256_hash (properties st) \<and> k = stored_id st) \<and>
   (\<forall>d. length (filter (\<lambda>st. sha256_hash (properties st) = d) (map_values strings)) \<le> 1)"
proof -
  assume r: "reachable lc sha strings"
  then have inv: "store_invariant strings"
    by (induction rule: reachable.induct)
       (simp_all add: store_invariant_empty store_invariant_create store_invariant_delete)
  have "distinct (map (\<lambda>st. sha256_hash (properties st)) (map_values strings))"
    using inv by (simp add: store_invariant_def map_values_def comp_def case_prod_unfold)
  then have "length (filter (\<lambda>st. sha256_hash (properties st) = d) (map_values strings)) \<le> 1" for d
    by (rule distinct_filter_le_1)
  with inv show ?thesis by (auto simp: store_invariant_def list_all_iff)
qed

theorem C2_store_invariant_witness:
  "reachable ascii_toLowerCase (\<lambda>s. s)
     (snd (storage_delete
        (snd (storage_create ascii_toLowerCase (\<lambda>s. s) (str ''t1'')
           (snd (storage_create ascii_toLowerCase (\<lambda>s. s) (str ''t0'') [] (str ''racecar'')))
           (str ''hello'')))
        (str ''racecar''))) \<and>
   store_invariant
     (snd (storage_delete
        (snd (storage_create ascii_toLowerCase (\<lambda>s. s) (str ''t1'')
           (snd (storage_create ascii_toLowerCase (\<lambda>s. s) (str ''t0'') [] (str ''racecar'')))
           (str ''hello'')))
        (str ''racecar''))) \<and>
   map fst
     (snd (storage_delete
        (snd (storage_create ascii_toLowerCase (\<lambda>s. s) (str ''t1'')
           (snd (storage_create ascii_toLowerCase (\<lambda>s. s) (str ''t0'') [] (str ''racecar'')))
           (str ''hello'')))
        (str ''racecar''))) = [str ''hello'']"
proof -
  let ?L = ascii_toLowerCase
  let ?S = "\<lambda>s::jsstring. s"
  let ?s1 = "snd (storage_create ?L ?S (str ''t0'') [] (str ''racecar''))"
  let ?s2 = "snd (storage_create ?L ?S (str ''t1'') ?s1 (str ''hello''))"
  let ?s3 = "snd (storage_delete ?s2 (str ''racecar''))"
  have r: "reachable ?L ?S ?s3"
    by (intro reachable.intros)
  have k: "map fst ?s3 = [str ''hello'']"
    by (simp add: storage_create_cases storage_delete_def str_def)
  from C2_store_invariant [OF r] have "store_invariant ?s3" by (rule conjunct1)
  with r k show ?thesis by simp
qed

lemma map_get_append_new: "k \<notin> fst ` set m \<Longrightarrow> map_get (m @ [(k, v)]) k = Some v"
  by (induction m) auto

text \<open>
  Claim C3. For every string \<open>value\<close> (and a store that satisfies the invariant, as every
  reachable one does), \<open>create\<close> fails with \<open>AlreadyExists\<close> exactly when a record with
  the digest of \<open>value\<close> is in the store, and then leaves the store as it was; otherwise
  it appends and returns a new record that holds the value, its properties and the
  creation time stamp, and the record can be read back under its digest.
\<close>

theorem C3_create:
  assumes "store_invariant strings"
  shows "(fst (storage_create lc sha now strings value) = Inl AlreadyExists \<longleftrightarrow>
            (\<exists>st \<in> set (map_values strings).
               sha256_hash (properties st) = sha256_hash (computeProperties lc sha value))) \<and>
         (fst (storage_create lc sha now strings value) = Inl AlreadyExists \<longrightarrow>
            snd (storage_create lc sha now strings value) = strings) \<and>
         (fst (storage_create lc sha now strings value) \<noteq> Inl AlreadyExists \<longrightarrow>
            (\<exists>st. storage_create lc sha now strings value = (Inr st, strings @ [(stored_id st, st)]) \<and>
                  stored_value st = value \<and>
                  properties st = computeProperties lc sha value \<and>
                  stored_id st = sha256_hash (properties st) \<and>
                  created_at st = now \<and>
                  storage_get (snd (storage_create lc sha now strings value)) (stored_id st)
                    = Some st))"
proof -
  have keys: "sha value \<in> fst ` set strings \<longleftrightarrow>
      (\<exists>st \<in> set (map_values strings). sha256_hash (properties st) = sha value)"
    using invariant_keys [OF assms] by (force simp: map_values_def)
  show ?thesis
  proof (cases "sha value \<in> fst ` set strings")
    case True
    then show ?thesis using keys
      by (simp add: storage_create_cases sha256_hash_compute)
  next
    case False
    then show ?thesis using keys
      by (simp add: storage_create_cases sha256_hash_compute storage_get_def map_get_append_new)
  qed
qed

theorem C3_create_witness:
  "store_invariant (snd (storage_create ascii_toLowerCase (\<lambda>s. s) (str ''t0'') [] (str ''racecar''))) \<and>
   storage_create ascii_toLowerCase (\<lambda>s. s) (str ''t1'')
       (snd (storage_create ascii_toLowerCase (\<lambda>s. s) (str ''t0'') [] (str ''racecar'')))
       (str ''racecar'')
     = (Inl AlreadyExists,
        snd (storage_create ascii_toLowerCase (\<lambda>s. s) (str ''t0'') [] (str ''racecar''))) \<and>
   map_option created_at
     (storage_get
        (snd (storage_create ascii_toLowerCase (\<lambda>s. s) (str ''t1'')
           (snd (storage_create ascii_toLowerCase (\<lambda>s. s) (str ''t0'') [] (str ''racecar'')))
           (str ''hello'')))
        (str ''hello'')) = Some (str ''t1'')"
proof -
  let ?s0 = "snd (storage_create ascii_toLowerCase (\<lambda>s. s) (str ''t0'') [] (str ''racecar''))"
  have i: "store_invariant ?s0"
    by (simp add: storage_create_cases store_invariant_def sha256_hash_compute)
  show ?thesis
    using C3_create [OF i, of ascii_toLowerCase "\<lambda>s. s" "str ''t1''" "str ''racecar''"] i
    by (simp add: storage_create_cases sha256_hash_compute storage_get_def str_def)
qed

section \<open>Storage.list\<close>

lemma js_less_length: "js_less (Finite (int k)) n \<longleftrightarrow> \<not> at_least k n \<and> n \<noteq> NaN"
  by (cases n) (auto simp: at_least_def)

lemma js_less_bound: "js_less n (Finite (int k)) \<longleftrightarrow> \<not> at_most k n \<and> n \<noteq> NaN"
  by (cases n) (auto simp: at_most_def)

lemma js_strict_neq_count: "js_strict_neq (Finite (int k)) n \<longleftrightarrow> \<not> equal_to k n"
  by (cases n) (auto simp: js_strict_neq_def equal_to_def)

lemma record_matches_conj:
  "record_matches st f \<longleftrightarrow>
     (case is_palindrome_f f of Some b \<Rightarrow> is_palindrome (properties st) = b | None \<Rightarrow> True) \<and>
     (case min_length f of
        Some n \<Rightarrow> \<not> js_less (Finite (int (length_p (properties st)))) n | None \<Rightarrow> True) \<and>
     (case max_length f of
        Some n \<Rightarrow> \<not> js_less n (Finite (int (length_p (properties st)))) | None \<Rightarrow> True) \<and>
     (case word_count_f f of
        Some n \<Rightarrow> \<not> js_strict_neq (Finite (int (word_count (properties st)))) n | None \<Rightarrow> True) \<and>
     (case contains_character f of
        Some ch \<Rightarrow> ch \<in> fst ` set (character_frequency_map (properties st)) | None \<Rightarrow> True)"
  by (cases "is_palindrome_f f"; cases "min_length f"; cases "max_length f";
      cases "word_count_f f"; cases "contains_character f")
     (auto simp: record_matches_def Let_def)

lemma satisfies_conj:
  "satisfies st f \<longleftrightarrow>
     (case is_palindrome_f f of Some b \<Rightarrow> is_palindrome (properties st) = b | None \<Rightarrow> True) \<and>
     (case min_length f of Some n \<Rightarrow> at_least (length_p (properties st)) n | None \<Rightarrow> True) \<and>
     (case max_length f of Some n \<Rightarrow> at_most (length_p (properties st)) n | None \<Rightarrow> True) \<and>
     (case word_count_f f of Some n \<Rightarrow> equal_to (word_count (properties st)) n | None \<Rightarrow> True) \<and>
     (case contains_character f of
        Some ch \<Rightarrow> ch \<in> fst ` set (character_frequency_map (properties st)) | None \<Rightarrow> True)"
  by (simp add: satisfies_def split: option.splits)

lemma record_matches_satisfies:
  "min_length f \<noteq> Some NaN \<Longrightarrow> max_length f \<noteq> Some NaN \<Longrightarrow>
   record_matches st f \<longleftrightarrow> satisfies st f"
  by (cases "min_length f"; cases "max_length f"; cases "word_count_f f")
     (simp_all add: record_matches_conj satisfies_conj js_less_length js_less_bound
        js_strict_neq_count)

lemma record_matches_NaN:
  "record_matches st f \<longleftrightarrow>
   record_matches st
     (f\<lparr>min_length := (if min_length f = Some NaN then None else min_length f),
        max_length := (if max_length f = Some NaN then None else max_length f)\<rparr>)"
  by (cases "min_length f"; cases "max_length f")
     (auto simp: record_matches_conj)

lemma list_loop_filter:
  "list_loop f results sts = results @ filter (\<lambda>st. record_matches st f) sts"
  by (induction sts arbitrary: results) auto

lemma satisfies_no_filters: "satisfies st no_filters"
  by (simp add: satisfies_def no_filters_def)

lemma data_storage_list:
  "data (storage_list strings f) = filter (\<lambda>st. record_matches st f) (map_values strings)"
  by (simp add: storage_list_def Let_def list_loop_filter)

text \<open>
  Claim C7, as amended. For every store and every filter set whose \<open>min_length\<close> and
  \<open>max_length\<close> are not \<open>NaN\<close>, \<open>list\<close> returns exactly the stored records (in the order of
  the store) that satisfy every filter present in the set: \<open>is_palindrome\<close> equal, length
  at least \<open>min_length\<close>, length at most \<open>max_length\<close>, \<open>word_count\<close> equal,
  \<open>contains_character\<close> a key of the frequency table. A \<open>min_length\<close> or \<open>max_length\<close> that is
  \<open>NaN\<close> constrains nothing, as if it were absent. An absent filter constrains nothing, the
  empty filter set matches every record, \<open>count\<close> is the number of records returned, and
  \<open>min_length = 5\<close> with \<open>max_length = 3\<close> matches none.
\<close>

theorem C7_list:
  "(min_length f \<noteq> Some NaN \<and> max_length f \<noteq> Some NaN \<longrightarrow>
      data (storage_list strings f) = filter (\<lambda>st. satisfies st f) (map_values strings) \<and>
      (\<forall>st. st \<in> set (data (storage_list strings f))
             \<longleftrightarrow> st \<in> set (map_values strings) \<and> satisfies st f)) \<and>
   data (storage_list strings f)
     = filter (\<lambda>st. satisfies st
                 (f\<lparr>min_length := (if min_length f = Some NaN then None else min_length f),
                    max_length := (if max_length f = Some NaN then None else max_length f)\<rparr>))
         (map_values strings) \<and>
   count (storage_list strings f) = length (data (storage_list strings f)) \<and>
   filters_applied (storage_list strings f) = f \<and>
   data (storage_list strings no_filters) = map_values strings \<and>
   (min_length f = Some (Finite 5) \<and> max_length f = Some (Finite 3) \<longrightarrow>
      data (storage_list strings f) = [] \<and> count (storage_list strings f) = 0)"
proof -
  let ?g = "f\<lparr>min_length := (if min_length f = Some NaN then None else min_length f),
               max_length := (if max_length f = Some NaN then None else max_length f)\<rparr>"
  have d: "data (storage_list strings g) = filter (\<lambda>st. satisfies st g) (map_values strings)"
    if "min_length g \<noteq> Some NaN" "max_length g \<noteq> Some NaN" for g
    using that by (simp add: data_storage_list record_matches_satisfies)
  have "record_matches st f \<longleftrightarrow> satisfies st ?g" for st
    using record_matches_NaN [of st f] record_matches_satisfies [of ?g st] by simp
  then have n: "data (storage_list strings f) = filter (\<lambda>st. satisfies st ?g) (map_values strings)"
    by (simp add: data_storage_list)
  have c: "count (storage_list strings f) = length (data (storage_list strings f))"
    and a: "filters_applied (storage_list strings f) = f"
    by (simp_all add: storage_list_def Let_def)
  have e: "data (storage_list strings no_filters) = map_values strings"
    using d [of no_filters] by (simp add: satisfies_no_filters) (simp add: no_filters_def)
  have z: "\<not> satisfies st f" if "min_length f = Some (Finite 5)" "max_length f = Some (Finite 3)" for st
    using that by (auto simp: satisfies_def at_least_def at_most_def)
  have m: "data (storage_list strings f) = [] \<and> count (storage_list strings f) = 0"
    if "min_length f = Some (Finite 5)" "max_length f = Some (Finite 3)"
    using z [OF that] d [of f] that c by simp
  have s: "data (storage_list strings f) = filter (\<lambda>st. satisfies st f) (map_values strings) \<and>
      (\<forall>st. st \<in> set (data (storage_list strings f))
             \<longleftrightarrow> st \<in> set (map_values strings) \<and> satisfies st f)"
    if "min_length f \<noteq> Some NaN" "max_length f \<noteq> Some NaN"
    using d [OF that] by auto
  from s n c a e m show ?thesis by blast
qed

theorem C7_list_witness:
  "min_length (no_filters\<lparr>is_palindrome_f := Some False, min_length := Some (Finite 5),
                 word_count_f := Some (Finite 2), contains_character := Some (str ''w'')\<rparr>)
     \<noteq> Some NaN \<and>
   map stored_value
     (data (storage_list
        (snd (storage_create ascii_toLowerCase (\<lambda>s. s) (str ''t1'')
           (snd (storage_create ascii_toLowerCase (\<lambda>s. s) (str ''t0'') [] (str ''racecar'')))
           (str ''hello world'')))
        (no_filters\<lparr>is_palindrome_f := Some False, min_length := Some (Finite 5),
                     word_count_f := Some (Finite 2), contains_character := Some (str ''w'')\<rparr>)))
     = [str ''hello world''] \<and>
   map stored_value
     (filter (\<lambda>st. satisfies st
                (no_filters\<lparr>is_palindrome_f := Some False, min_length := Some (Finite 5),
                     word_count_f := Some (Finite 2), contains_character := Some (str ''w'')\<rparr>))
        (map_values
          (snd (storage_create ascii_toLowerCase (\<lambda>s. s) (str ''t1'')
             (snd (storage_create ascii_toLowerCase (\<lambda>s. s) (str ''t0'') [] (str ''racecar'')))
             (str ''hello world'')))))
     = [str ''hello world''] \<and>
   data (storage_list
        (snd (storage_create ascii_toLowerCase (\<lambda>s. s) (str ''t1'')
           (snd (storage_create ascii_toLowerCase (\<lambda>s. s) (str ''t0'') [] (str ''racecar'')))
           (str ''hello world'')))
        (no_filters\<lparr>min_length := Some (Finite 5), max_length := Some (Finite 3)\<rparr>)) = []"
proof -
  let ?s = "snd (storage_create ascii_toLowerCase (\<lambda>s. s) (str ''t1'')
           (snd (storage_create ascii_toLowerCase (\<lambda>s. s) (str ''t0'') [] (str ''racecar'')))
           (str ''hello world''))"
  let ?f = "no_filters\<lparr>is_palindrome_f := Some False, min_length := Some (Finite 5),
                     word_count_f := Some (Finite 2), contains_character := Some (str ''w'')\<rparr>"
  let ?g = "no_filters\<lparr>min_length := Some (Finite 5), max_length := Some (Finite 3)\<rparr>"
  have p1: "is_palindrome (computeProperties ascii_toLowerCase (\<lambda>s. s) (str ''racecar'')) = True"
    by (simp add: computeProperties_def str_def ascii_toLowerCase_def lower_unit_def
          join_empty_def split_units_def)
  have p2: "is_palindrome (computeProperties ascii_toLowerCase (\<lambda>s. s) (str ''hello world'')) = False"
    "length_p (computeProperties ascii_toLowerCase (\<lambda>s. s) (str ''hello world'')) = 11"
    "word_count (computeProperties ascii_toLowerCase (\<lambda>s. s) (str ''hello world'')) = 2"
    "str ''w'' \<in> fst ` set (character_frequency_map (computeProperties ascii_toLowerCase (\<lambda>s. s) (str ''hello world'')))"
    by (simp_all add: computeProperties_def str_def trim_def isWhiteSpace_def is_high_surrogate_def
          ascii_toLowerCase_def lower_unit_def join_empty_def split_units_def)
  have d: "map stored_value (data (storage_list ?s ?f)) = [str ''hello world'']"
    using p1 p2 by (simp add: storage_create_cases storage_list_def map_values_def
          record_matches_def js_strict_neq_def no_filters_def str_def)
  have nf: "min_length ?f \<noteq> Some NaN" "max_length ?f \<noteq> Some NaN"
    by (simp_all add: no_filters_def)
  have m: "min_length ?g = Some (Finite 5) \<and> max_length ?g = Some (Finite 3)"
    by (simp add: no_filters_def)
  from C7_list [of ?f ?s] nf
  have e1: "data (storage_list ?s ?f) = filter (\<lambda>st. satisfies st ?f) (map_values ?s)"
    by blast
  from C7_list [of ?g ?s] m have e2: "data (storage_list ?s ?g) = []"
    by blast
  from d have d': "map stored_value (filter (\<lambda>st. satisfies st ?f) (map_values ?s))
      = [str ''hello world'']"
    unfolding e1 .
  from nf(1) d d' e2 show ?thesis by (intro conjI)
qed

text \<open>
  The claim as the specification has it, for every filter set, fails at \<open>NaN\<close>: the list
  endpoint turns \<open>min_length=abc\<close> into the filter \<open>min_length: NaN\<close>, no length is at least
  \<open>NaN\<close>, and \<open>list\<close> returns the stored record all the same.
\<close>

theorem C7_NaN_matches_all:
  "get_strings
       (snd (storage_create ascii_toLowerCase (\<lambda>s. s) (str ''t0'') [] (str ''racecar'')))
       \<lparr> is_palindrome_q = None, min_length_q = Some (str ''abc''), max_length_q = None,
         word_count_q = None, contains_character_q = None \<rparr>
     = \<lparr> status = 200,
         body = ListBody
           (storage_list
              (snd (storage_create ascii_toLowerCase (\<lambda>s. s) (str ''t0'') [] (str ''racecar'')))
              (no_filters\<lparr>min_length := Some NaN\<rparr>)) \<rparr> \<and>
   map stored_value
     (data (storage_list
        (snd (storage_create ascii_toLowerCase (\<lambda>s. s) (str ''t0'') [] (str ''racecar'')))
        (no_filters\<lparr>min_length := Some NaN\<rparr>)))
     = [str ''racecar''] \<and>
   filter (\<lambda>st. satisfies st (no_filters\<lparr>min_length := Some NaN\<rparr>))
     (map_values
        (snd (storage_create ascii_toLowerCase (\<lambda>s. s) (str ''t0'') [] (str ''racecar''))))
     = []"
proof -
  let ?s = "snd (storage_create ascii_toLowerCase (\<lambda>s. s) (str ''t0'') [] (str ''racecar''))"
  have p: "parseInt10 (Some (str ''abc'')) = NaN"
    by (simp add: parseInt10_def str_def isWhiteSpace_def isDigit_def)
  have g: "given (Some (str ''abc''))" by (simp add: given_def str_def)
  have h: "get_strings ?s
       \<lparr> is_palindrome_q = None, min_length_q = Some (str ''abc''), max_length_q = None,
         word_count_q = None, contains_character_q = None \<rparr>
     = \<lparr> status = 200, body = ListBody (storage_list ?s (no_filters\<lparr>min_length := Some NaN\<rparr>)) \<rparr>"
    by (simp add: get_strings_def Let_def p g) (simp add: given_def)
  have d: "map stored_value (data (storage_list ?s (no_filters\<lparr>min_length := Some NaN\<rparr>)))
      = [str ''racecar'']"
    by (simp add: storage_create_cases data_storage_list map_values_def record_matches_conj
          no_filters_def)
  have n: "\<not> satisfies st (no_filters\<lparr>min_length := Some NaN\<rparr>)" for st
    by (simp add: satisfies_def at_least_def)
  from h d n show ?thesis by simp
qed

section \<open>The heuristic rules of parseNaturalQuery\<close>

lemma starts_with_iff: "starts_with s pat \<longleftrightarrow> (\<exists>post. s = pat @ post)"
proof
  assume "starts_with s pat"
  then have "s = pat @ drop (length pat) s"
    by (metis append_take_drop_id starts_with_def)
  then show "\<exists>post. s = pat @ post" ..
next
  assume "\<exists>post. s = pat @ post"
  then show "starts_with s pat" by (auto simp: starts_with_def)
qed

lemma includes_str_occurs: "includes_str s pat \<longleftrightarrow> occurs pat s"
proof (induction s)
  case Nil
  then show ?case by (auto simp: occurs_def)
next
  case (Cons c cs)
  have "occurs pat (c # cs) \<longleftrightarrow> (\<exists>post. c # cs = pat @ post) \<or> occurs pat cs"
  proof
    assume "occurs pat (c # cs)"
    then obtain before after where e: "c # cs = before @ pat @ after"
      by (auto simp: occurs_def)
    show "(\<exists>post. c # cs = pat @ post) \<or> occurs pat cs"
    proof (cases before)
      case Nil
      with e show ?thesis by auto
    next
      case (Cons b bs)
      with e have "cs = bs @ pat @ after" by simp
      then show ?thesis by (auto simp: occurs_def)
    qed
  next
    assume "(\<exists>post. c # cs = pat @ post) \<or> occurs pat cs"
    then show "occurs pat (c # cs)"
    proof
      assume "\<exists>post. c # cs = pat @ post"
      then obtain post where "c # cs = [] @ pat @ post" by auto
      then show ?thesis unfolding occurs_def by blast
    next
      assume "occurs pat cs"
      then obtain before after where "cs = before @ pat @ after" by (auto simp: occurs_def)
      then have "c # cs = (c # before) @ pat @ after" by simp
      then show ?thesis unfolding occurs_def by blast
    qed
  qed
  with Cons show ?case by (simp add: starts_with_iff)
qed

lemma find_map_comp: "find P (map f xs) = map_option f (find (P \<circ> f) xs)"
  by (induction xs) auto

lemma first_index_scan:
  assumes nil: "f [] = None"
    and cons: "\<And>c cs. f (c # cs) = (case G (c # cs) of Some g \<Rightarrow> Some g | None \<Rightarrow> f cs)"
  shows "f s = (case find (\<lambda>i. G (drop i s) \<noteq> None) [0..<length s] of
                  None \<Rightarrow> None
                | Some i \<Rightarrow> G (drop i s))"
proof (induction s)
  case Nil
  then show ?case by (simp add: nil)
next
  case (Cons c cs)
  have "[0..<Suc (length cs)] = 0 # [Suc 0..<Suc (length cs)]"
    by (rule upt_conv_Cons) simp
  then have u: "[0..<length (c # cs)] = 0 # map Suc [0..<length cs]"
    by (simp only: map_Suc_upt length_Cons)
  let ?P = "\<lambda>i. G (drop i (c # cs)) \<noteq> None"
  let ?P' = "\<lambda>i. G (drop i cs) \<noteq> None"
  show ?case
  proof (cases "G (c # cs)")
    case None
    have p: "?P \<circ> Suc = ?P'" by (simp add: comp_def)
    have "find ?P [0..<length (c # cs)] = map_option Suc (find ?P' [0..<length cs])"
      using None by (simp only: u find.simps find_map_comp p) simp
    moreover have "f (c # cs) = f cs"
      using None by (simp add: cons)
    ultimately show ?thesis
      using Cons.IH by (cases "find ?P' [0..<length cs]") simp_all
  next
    case (Some g)
    then show ?thesis by (simp only: u cons [of c cs]) simp
  qed
qed

lemma word_in_range:
  fixes c :: "16 word"
  assumes "lo \<le> c" "c \<le> hi"
  shows "c \<in> set (map word_of_nat [unat lo..<Suc (unat hi)])"
proof -
  have "unat c \<in> set [unat lo..<Suc (unat hi)]"
    using assms by (auto simp: word_le_nat_alt)
  then have "word_of_nat (unat c) \<in> set (map word_of_nat [unat lo..<Suc (unat hi)] :: 16 word list)"
    unfolding set_map by (rule imageI)
  then show ?thesis by simp
qed

lemma decimal_digit_iff: "decimal_digit c \<longleftrightarrow> isDigit c"
proof
  assume "decimal_digit c"
  then show "isDigit c" by (auto simp: decimal_digit_def isDigit_def str_def)
next
  assume "isDigit c"
  then have "c \<in> set (map word_of_nat [unat (0x30 :: 16 word)..<Suc (unat (0x39 :: 16 word))])"
    unfolding isDigit_def by (intro word_in_range) simp_all
  then show "decimal_digit c"
    by (simp add: decimal_digit_def str_def upt_rec)
qed

lemma small_letter_iff: "small_letter c \<longleftrightarrow> isLowerLetter c"
proof
  assume "small_letter c"
  then show "isLowerLetter c" by (auto simp: small_letter_def isLowerLetter_def str_def)
next
  assume "isLowerLetter c"
  then have "c \<in> set (map word_of_nat [unat (0x61 :: 16 word)..<Suc (unat (0x7A :: 16 word))])"
    unfolding isLowerLetter_def by (intro word_in_range) simp_all
  then show "small_letter c"
    by (simp add: small_letter_def str_def upt_rec)
qed

lemma digit_number_value: "isDigit c \<Longrightarrow> digit_number c = digit_value c"
proof -
  assume "isDigit c"
  then have "c \<in> set (str ''0123456789'')"
    using decimal_digit_iff [of c] by (simp add: decimal_digit_def)
  then show ?thesis
    by (auto simp: digit_number_def digit_value_def str_def)
qed

lemma foldl_horner:
  "foldl (\<lambda>acc d. 10 * acc + f d) a ds = horner_sum f 10 (rev ds) + a * 10 ^ length ds"
  for f :: "'a \<Rightarrow> int"
  by (induction ds arbitrary: a) (simp_all add: horner_sum_append algebra_simps)

lemma horner_sum_same:
  "\<forall>x\<in>set xs. f x = g x \<Longrightarrow> horner_sum f a xs = horner_sum g a xs"
  by (induction xs) simp_all

lemma number_value_decimal: "\<forall>c\<in>set ds. isDigit c \<Longrightarrow> number_value ds = decimal ds"
proof -
  assume "\<forall>c\<in>set ds. isDigit c"
  then have "\<forall>c\<in>set (rev ds). digit_number c = digit_value c"
    by (simp add: digit_number_value)
  then have "horner_sum digit_number 10 (rev ds) = horner_sum digit_value 10 (rev ds)"
    by (rule horner_sum_same)
  then show ?thesis
    by (simp add: number_value_def decimal_def foldl_horner)
qed

lemma digit_not_space: "isDigit c \<Longrightarrow> \<not> isWhiteSpace c"
  by (auto simp: isDigit_def isWhiteSpace_def word_le_nat_alt)

lemma parseInt10_digits:
  assumes "takeWhile isDigit s \<noteq> []"
  shows "parseInt10 (Some (takeWhile isDigit s)) = to_double (decimal (takeWhile isDigit s))"
proof -
  let ?ds = "takeWhile isDigit s"
  from assms obtain x xs where c: "?ds = x # xs" by (cases ?ds) auto
  have all: "\<forall>y\<in>set ?ds. isDigit y" by (auto dest: set_takeWhileD)
  then have "\<not> isWhiteSpace x" using c digit_not_space by auto
  then have dw: "dropWhile isWhiteSpace ?ds = ?ds" by (simp add: c)
  have tw: "takeWhile isDigit ?ds = ?ds" by simp
  have "isDigit x" using all c by simp
  then have sg: "x \<noteq> 0x2D" "x \<noteq> 0x2B" by (auto simp: isDigit_def)
  have "(case ?ds of
           [] \<Rightarrow> (1::int, [])
         | c # r \<Rightarrow> if c = 0x2D then (- 1, r) else if c = 0x2B then (1, r) else (1, ?ds))
        = (1, ?ds)"
    using sg by (simp add: c)
  then show ?thesis
    unfolding parseInt10_def option.case Let_def dw using assms by (simp add: tw)
qed

lemma literal_digits_number:
  "literal_digits kw t = Some ds \<Longrightarrow>
   ds \<noteq> [] \<and> parseInt10 (Some ds) = to_double (decimal ds) \<and> number_value ds = decimal ds"
  by (auto simp: literal_digits_def Let_def parseInt10_digits split: if_splits
        intro!: number_value_decimal dest: set_takeWhileD)

lemma takeWhile_decimal_digit: "takeWhile decimal_digit s = takeWhile isDigit s"
  by (rule takeWhile_cong) (simp_all add: decimal_digit_iff)

lemma number_at_literal:
  "number_at kw text i = map_option decimal (literal_digits kw (drop i text))"
proof (cases "literal_digits kw (drop i text)")
  case None
  then show ?thesis
    by (simp add: number_at_def literal_digits_def starts_with_def Let_def
          takeWhile_decimal_digit split: if_splits)
next
  case (Some ds)
  with literal_digits_number [OF Some] show ?thesis
    by (auto simp: number_at_def literal_digits_def starts_with_def Let_def
          takeWhile_decimal_digit split: if_splits)
qed

lemma length_phrase_regex:
  "length_phrase_at text i =
     (case length_regex_at (drop i text) of
        None \<Rightarrow> None
      | Some (g1, g2) \<Rightarrow> map_option decimal (or_else g1 g2))"
  by (auto simp: length_phrase_at_def length_regex_at_def number_at_literal or_else_def
        split: option.splits dest: literal_digits_number)

lemma length_phrase_regex_None:
  "(length_phrase_at text i \<noteq> None) = (length_regex_at (drop i text) \<noteq> None)"
  by (auto simp: length_phrase_at_def length_regex_at_def number_at_literal
        split: option.splits)

lemma length_regex_capture:
  assumes "length_regex_at t = Some (g1, g2)"
  shows "\<exists>ds. or_else g1 g2 = Some ds \<and> parseInt10 (Some ds) = to_double (decimal ds)"
proof (cases "literal_digits (str ''longer than '') t")
  case (Some ds)
  with assms have "g1 = Some ds" "g2 = None" by (simp_all add: length_regex_at_def)
  with literal_digits_number [OF Some] show ?thesis by (simp add: or_else_def)
next
  case None
  with assms obtain ds where d: "literal_digits (str ''more than '') t = Some ds"
    and g: "g1 = None" "g2 = Some ds"
    by (auto simp: length_regex_at_def split: option.splits)
  with literal_digits_number [OF d] show ?thesis by (simp add: or_else_def)
qed

lemma match_length_capture:
  "match_length s = Some (g1, g2) \<Longrightarrow>
   \<exists>ds. or_else g1 g2 = Some ds \<and> parseInt10 (Some ds) = to_double (decimal ds)"
proof (induction s)
  case Nil
  then show ?case by simp
next
  case (Cons c cs)
  then show ?case
    by (cases "length_regex_at (c # cs)") (auto dest: length_regex_capture)
qed

lemma match_length_first:
  "first_length_number text =
     (case match_length text of
        None \<Rightarrow> None
      | Some (g1, g2) \<Rightarrow> map_option decimal (or_else g1 g2))"
proof -
  have m: "match_length text =
      (case find (\<lambda>i. length_regex_at (drop i text) \<noteq> None) [0..<length text] of
         None \<Rightarrow> None | Some i \<Rightarrow> length_regex_at (drop i text))"
    by (rule first_index_scan) simp_all
  show ?thesis
    unfolding first_length_number_def length_phrase_regex_None
    unfolding length_phrase_regex m
    by (simp split: option.splits)
qed

lemma match_length_double:
  "(case match_length text of
      None \<Rightarrow> None
    | Some (g1, g2) \<Rightarrow> Some (js_plus (parseInt10 (or_else g1 g2)) (Finite 1)))
   = map_option (\<lambda>n. js_plus (to_double n) (Finite 1)) (first_length_number text)"
proof (cases "match_length text")
  case None
  then show ?thesis by (simp add: match_length_first)
next
  case (Some g)
  obtain g1 g2 where g: "g = (g1, g2)" by (cases g)
  from match_length_capture [of "text" g1 g2] Some g obtain ds
    where "or_else g1 g2 = Some ds" "parseInt10 (Some ds) = to_double (decimal ds)" by auto
  then show ?thesis using Some g by (simp add: match_length_first)
qed

lemma first_length_number_nonneg: "first_length_number text = Some n \<Longrightarrow> 0 \<le> n"
proof -
  have h: "0 \<le> horner_sum digit_number 10 xs" for xs
    by (induction xs) (simp_all add: digit_number_def)
  have n: "0 \<le> k" if "number_at kw text i = Some k" for kw i k
    using that by (auto simp: number_at_def Let_def number_value_def h split: if_splits)
  assume "first_length_number text = Some n"
  then obtain i where "length_phrase_at text i = Some n"
    by (auto simp: first_length_number_def split: option.splits)
  then show ?thesis
    by (auto simp: length_phrase_at_def split: option.splits dest: n)
qed

lemma letter_at_regex: "letter_at text i = letter_regex_at (drop i text)"
proof -
  have l: "length (str ''letter '') = 7" by (simp add: str_def)
  show ?thesis
  proof (cases "drop 7 (drop i text)")
    case Nil
    then have "\<not> 7 < length (drop i text)" by simp
    with Nil show ?thesis
      by (simp add: letter_at_def letter_regex_at_def starts_with_def l Let_def small_letter_iff)
  next
    case (Cons x xs)
    then have "7 < length (drop i text)" by (metis drop_eq_Nil linorder_not_less list.distinct(1))
    moreover from this Cons have "drop i text ! 7 = x"
      by (metis Cons_nth_drop_Suc list.inject)
    ultimately show ?thesis using Cons
      by (simp add: letter_at_def letter_regex_at_def starts_with_def l Let_def small_letter_iff)
  qed
qed

lemma match_letter_first: "match_letter text = first_letter text"
proof -
  have "match_letter text =
      (case find (\<lambda>i. letter_regex_at (drop i text) \<noteq> None) [0..<length text] of
         None \<Rightarrow> None | Some i \<Rightarrow> letter_regex_at (drop i text))"
    by (rule first_index_scan) simp_all
  then show ?thesis unfolding first_letter_def letter_at_regex .
qed

lemma heuristic_filters_fields:
  "is_palindrome_f (heuristic_filters t) =
     (if includes_str t (str ''palindromic'') \<or> includes_str t (str ''palindrome'')
      then Some True else None)"
  "min_length (heuristic_filters t) =
     (case match_length t of
        None \<Rightarrow> None
      | Some (g1, g2) \<Rightarrow> Some (js_plus (parseInt10 (or_else g1 g2)) (Finite 1)))"
  "word_count_f (heuristic_filters t) =
     (if includes_str t (str ''single word'') \<or> includes_str t (str ''one word'')
      then Some (Finite 1) else None)"
  "contains_character (heuristic_filters t) =
     (if includes_str t (str ''z'') then Some (str ''z'')
      else if includes_str t (str ''vowel'') then Some (str ''a'')
      else match_letter t)"
  by (simp_all add: heuristic_filters_def Let_def no_filters_def split: option.splits prod.splits)

lemma keys_count_0: "keys_count f = 0 \<longleftrightarrow> f = no_filters"
  by (cases f) (auto simp: keys_count_def no_filters_def)

text \<open>
  The filter set of the rules is the one the specification words, with \<open>min_length\<close>
  computed in doubles.
\<close>

lemma heuristic_filters_spec:
  "heuristic_filters t =
     \<lparr> is_palindrome_f =
         (if occurs (str ''palindromic'') t \<or> occurs (str ''palindrome'') t
          then Some True else None),
       min_length = map_option (\<lambda>n. js_plus (to_double n) (Finite 1)) (first_length_number t),
       max_length = None,
       word_count_f =
         (if occurs (str ''single word'') t \<or> occurs (str ''one word'') t
          then Some (Finite 1) else None),
       contains_character =
         (if occurs (str ''z'') t then Some (str ''z'')
          else if occurs (str ''vowel'') t then Some (str ''a'')
          else first_letter t) \<rparr>"
  by (rule filters.equality)
     (simp_all add: heuristic_filters_fields heuristic_filters_max_length includes_str_occurs
        match_length_double match_letter_first)

lemma parseNaturalQuery_heuristic:
  "parseNaturalQuery lc query =
     Inr (if heuristic_filters (lc query) = no_filters then None
          else Some (heuristic_filters (lc query)))"
  by (simp add: parseNaturalQuery_def Let_def check_filters_no_max
        heuristic_filters_max_length keys_count_0)

lemma parseNaturalQuery_spec:
  "parseNaturalQuery lc query =
     Inr (map_option
            (\<lambda>fs. fs\<lparr>min_length := map_option (\<lambda>n. js_plus (to_double n) (Finite 1))
                                      (first_length_number (lc query))\<rparr>)
            (interpret_spec (lc query)))"
proof -
  let ?t = "lc query"
  let ?S = "\<lparr> is_palindrome_f =
         (if occurs (str ''palindromic'') ?t \<or> occurs (str ''palindrome'') ?t
          then Some True else None),
       min_length = map_option (\<lambda>n. Finite (n + 1)) (first_length_number ?t),
       max_length = None,
       word_count_f =
         (if occurs (str ''single word'') ?t \<or> occurs (str ''one word'') ?t
          then Some (Finite 1) else None),
       contains_character =
         (if occurs (str ''z'') ?t then Some (str ''z'')
          else if occurs (str ''vowel'') ?t then Some (str ''a'')
          else first_letter ?t) \<rparr>"
  have i: "interpret_spec ?t = (if ?S = no_filters then None else Some ?S)"
    by (simp add: interpret_spec_def Let_def)
  have u: "?S\<lparr>min_length := map_option (\<lambda>n. js_plus (to_double n) (Finite 1))
                                (first_length_number ?t)\<rparr> = heuristic_filters ?t"
    by (simp add: heuristic_filters_spec)
  have z: "?S = no_filters \<longleftrightarrow> heuristic_filters ?t = no_filters"
    by (cases "first_length_number ?t") (simp_all add: heuristic_filters_spec no_filters_def)
  show ?thesis
    unfolding parseNaturalQuery_heuristic i z [symmetric]
    by (simp add: u del: filters.simps)
qed

lemma parseNaturalQuery_exact:
  assumes "\<And>n. first_length_number (lc query) = Some n \<Longrightarrow> n < 2 ^ 53"
  shows "parseNaturalQuery lc query = Inr (interpret_spec (lc query))"
proof -
  let ?t = "lc query"
  have "map_option (\<lambda>n. js_plus (to_double n) (Finite 1)) (first_length_number ?t)
      = map_option (\<lambda>n. Finite (n + 1)) (first_length_number ?t)"
  proof (cases "first_length_number ?t")
    case None
    then show ?thesis by simp
  next
    case (Some n)
    with assms first_length_number_nonneg [of ?t n] have "0 \<le> n" "n < 2 ^ 53" by auto
    then show ?thesis using Some by (simp add: successor_exact)
  qed
  then have "heuristic_filters ?t =
     \<lparr> is_palindrome_f =
         (if occurs (str ''palindromic'') ?t \<or> occurs (str ''palindrome'') ?t
          then Some True else None),
       min_length = map_option (\<lambda>n. Finite (n + 1)) (first_length_number ?t),
       max_length = None,
       word_count_f =
         (if occurs (str ''single word'') ?t \<or> occurs (str ''one word'') ?t
          then Some (Finite 1) else None),
       contains_character =
         (if occurs (str ''z'') ?t then Some (str ''z'')
          else if occurs (str ''vowel'') ?t then Some (str ''a'')
          else first_letter ?t) \<rparr>"
    by (simp add: heuristic_filters_spec)
  then show ?thesis
    unfolding parseNaturalQuery_heuristic interpret_spec_def Let_def by simp
qed

lemma interpret_spec_rules:
  "interpret_spec t =
     (let S = (heuristic_filters t)
                \<lparr>min_length := (case match_length t of
                                  None \<Rightarrow> None
                                | Some (g1, g2) \<Rightarrow>
                                    map_option (\<lambda>ds. Finite (decimal ds + 1)) (or_else g1 g2))\<rparr>
      in if S = no_filters then None else Some S)"
proof -
  have "map_option (\<lambda>n. Finite (n + 1)) (first_length_number t)
      = (case match_length t of
           None \<Rightarrow> None
         | Some (g1, g2) \<Rightarrow> map_option (\<lambda>ds. Finite (decimal ds + 1)) (or_else g1 g2))"
    by (simp add: match_length_first option.map_comp comp_def split: option.splits)
  then show ?thesis
    by (simp add: interpret_spec_def Let_def heuristic_filters_spec)
qed

lemmas parse_eval = str_def starts_with_def literal_digits_def length_regex_at_def
  letter_regex_at_def isDigit_def isLowerLetter_def or_else_def parseInt10_def decimal_def
  digit_value_def heuristic_filters_def keys_count_def truthy_def check_filters_def
  no_filters_def isWhiteSpace_def parseNaturalQuery_def to_double_def round_magnitude_def
  exponent_above.simps ascii_toLowerCase_def lower_unit_def

text \<open>
  Claim C8, as amended. For every query string whose first "longer than N" or "more than N"
  number, if there is one, is below \<open>2^53\<close>, \<open>parseNaturalQuery\<close> returns the filter set
  that the heuristic rules give on the lower-cased query: a palindrome keyword sets
  \<open>is_palindrome\<close> true, "single word" or "one word" sets \<open>word_count\<close> 1, the first
  "longer than N" or "more than N" sets \<open>min_length\<close> to \<open>N + 1\<close>, and of the rules for
  \<open>contains_character\<close> (letter pattern, vowel, presence of "z") the last that fires
  decides; when no rule fires the result is \<open>null\<close>. For every query the result is that
  filter set with \<open>min_length\<close> computed in doubles: the double nearest to \<open>N\<close>, plus 1,
  rounded. In particular "all single word palindromic strings" gives
  \<open>{is_palindrome: true, word_count: 1}\<close>, "strings longer than 5" gives \<open>{min_length: 6}\<close>,
  "gibberish" gives \<open>null\<close>, "strings with the letter q" gives \<open>{contains_character: "q"}\<close>,
  "words of more than 1234 characters" gives \<open>{min_length: 1235}\<close>, and
  "strings longer than 9007199254740992" gives \<open>{min_length: 9007199254740992}\<close>.
\<close>

theorem C8_interpret:
  "((\<forall>n. first_length_number (lc query) = Some n \<longrightarrow> n < 2 ^ 53) \<longrightarrow>
      parseNaturalQuery lc query = Inr (interpret_spec (lc query))) \<and>
   parseNaturalQuery lc query =
     Inr (map_option
            (\<lambda>fs. fs\<lparr>min_length := map_option (\<lambda>n. js_plus (to_double n) (Finite 1))
                                      (first_length_number (lc query))\<rparr>)
            (interpret_spec (lc query))) \<and>
   (ascii_lowering lc \<longrightarrow>
      parseNaturalQuery lc (str ''all single word palindromic strings'')
        = Inr (Some (no_filters\<lparr>is_palindrome_f := Some True,
                                 word_count_f := Some (Finite 1)\<rparr>)) \<and>
      parseNaturalQuery lc (str ''strings longer than 5'')
        = Inr (Some (no_filters\<lparr>min_length := Some (Finite 6)\<rparr>)) \<and>
      parseNaturalQuery lc (str ''gibberish'') = Inr None \<and>
      parseNaturalQuery lc (str ''strings with the letter q'')
        = Inr (Some (no_filters\<lparr>contains_character := Some (str ''q'')\<rparr>)) \<and>
      parseNaturalQuery lc (str ''words of more than 1234 characters'')
        = Inr (Some (no_filters\<lparr>min_length := Some (Finite 1235)\<rparr>)) \<and>
      parseNaturalQuery lc (str ''strings longer than 9007199254740992'')
        = Inr (Some (no_filters\<lparr>min_length := Some (Finite 9007199254740992)\<rparr>)))"
proof -
  have e1: "parseNaturalQuery ascii_toLowerCase (str ''all single word palindromic strings'')
      = Inr (Some (no_filters\<lparr>is_palindrome_f := Some True, word_count_f := Some (Finite 1)\<rparr>))"
    by (simp add: parse_eval)
  have e2: "parseNaturalQuery ascii_toLowerCase (str ''strings longer than 5'')
      = Inr (Some (no_filters\<lparr>min_length := Some (Finite 6)\<rparr>))"
    by (simp add: parse_eval)
  have e3: "parseNaturalQuery ascii_toLowerCase (str ''gibberish'') = Inr None"
    by (simp add: parse_eval)
  have e4: "parseNaturalQuery ascii_toLowerCase (str ''strings with the letter q'')
      = Inr (Some (no_filters\<lparr>contains_character := Some (str ''q'')\<rparr>))"
    by (simp add: parse_eval)
  have e5: "parseNaturalQuery ascii_toLowerCase (str ''words of more than 1234 characters'')
      = Inr (Some (no_filters\<lparr>min_length := Some (Finite 1235)\<rparr>))"
    by (simp add: parse_eval)
  have e6: "parseNaturalQuery ascii_toLowerCase (str ''strings longer than 9007199254740992'')
      = Inr (Some (no_filters\<lparr>min_length := Some (Finite 9007199254740992)\<rparr>))"
    by (simp add: parse_eval)
  have a: "is_ascii (str ''all single word palindromic strings'')"
    "is_ascii (str ''strings longer than 5'')" "is_ascii (str ''gibberish'')"
    "is_ascii (str ''strings with the letter q'')"
    "is_ascii (str ''words of more than 1234 characters'')"
    "is_ascii (str ''strings longer than 9007199254740992'')"
    by (simp_all add: is_ascii_def str_def)
  have l: "parseNaturalQuery lc q = parseNaturalQuery ascii_toLowerCase q"
    if "ascii_lowering lc" "is_ascii q" for q
    using that by (simp add: parseNaturalQuery_def ascii_lowering_def)
  show ?thesis
  proof (intro conjI impI)
    assume "\<forall>n. first_length_number (lc query) = Some n \<longrightarrow> n < 2 ^ 53"
    then show "parseNaturalQuery lc query = Inr (interpret_spec (lc query))"
      by (intro parseNaturalQuery_exact) simp
  next
    show "parseNaturalQuery lc query =
      Inr (map_option
            (\<lambda>fs. fs\<lparr>min_length := map_option (\<lambda>n. js_plus (to_double n) (Finite 1))
                                      (first_length_number (lc query))\<rparr>)
            (interpret_spec (lc query)))"
      by (rule parseNaturalQuery_spec)
  next
    assume al: "ascii_lowering lc"
    show "parseNaturalQuery lc (str ''all single word palindromic strings'')
        = Inr (Some (no_filters\<lparr>is_palindrome_f := Some True, word_count_f := Some (Finite 1)\<rparr>))"
      using e1 l [OF al a(1)] by simp
  next
    assume al: "ascii_lowering lc"
    show "parseNaturalQuery lc (str ''strings longer than 5'')
        = Inr (Some (no_filters\<lparr>min_length := Some (Finite 6)\<rparr>))"
      using e2 l [OF al a(2)] by simp
  next
    assume al: "ascii_lowering lc"
    show "parseNaturalQuery lc (str ''gibberish'') = Inr None"
      using e3 l [OF al a(3)] by simp
  next
    assume al: "ascii_lowering lc"
    show "parseNaturalQuery lc (str ''strings with the letter q'')
        = Inr (Some (no_filters\<lparr>contains_character := Some (str ''q'')\<rparr>))"
      using e4 l [OF al a(4)] by simp
  next
    assume al: "ascii_lowering lc"
    show "parseNaturalQuery lc (str ''words of more than 1234 characters'')
        = Inr (Some (no_filters\<lparr>min_length := Some (Finite 1235)\<rparr>))"
      using e5 l [OF al a(5)] by simp
  next
    assume al: "ascii_lowering lc"
    show "parseNaturalQuery lc (str ''strings longer than 9007199254740992'')
        = Inr (Some (no_filters\<lparr>min_length := Some (Finite 9007199254740992)\<rparr>))"
      using e6 l [OF al a(6)] by simp
  qed
qed

theorem C8_interpret_witness:
  "ascii_lowering ascii_toLowerCase \<and>
   first_length_number (ascii_toLowerCase
       (str ''Palindromes with the letter q or a Vowel, MORE than 12 and longer than 3''))
     = Some 12 \<and>
   parseNaturalQuery ascii_toLowerCase
       (str ''Palindromes with the letter q or a Vowel, MORE than 12 and longer than 3'')
     = Inr (Some \<lparr> is_palindrome_f = Some True, min_length = Some (Finite 13), max_length = None,
                   word_count_f = None, contains_character = Some (str ''a'') \<rparr>) \<and>
   interpret_spec (ascii_toLowerCase
       (str ''Palindromes with the letter q or a Vowel, MORE than 12 and longer than 3''))
     = Some \<lparr> is_palindrome_f = Some True, min_length = Some (Finite 13), max_length = None,
              word_count_f = None, contains_character = Some (str ''a'') \<rparr> \<and>
   parseNaturalQuery ascii_toLowerCase (str ''strings with the letter q'')
     = Inr (Some (no_filters\<lparr>contains_character := Some (str ''q'')\<rparr>))"
proof -
  let ?q = "str ''Palindromes with the letter q or a Vowel, MORE than 12 and longer than 3''"
  let ?r = "\<lparr> is_palindrome_f = Some True, min_length = Some (Finite 13), max_length = None,
              word_count_f = None, contains_character = Some (str ''a'') \<rparr>"
  note c8 = C8_interpret [of ascii_toLowerCase ?q]
  have n: "first_length_number (ascii_toLowerCase ?q) = Some 12"
    by (simp add: match_length_first parse_eval)
  have p: "parseNaturalQuery ascii_toLowerCase ?q = Inr (Some ?r)"
    by (simp add: parse_eval)
  from n have "\<forall>n. first_length_number (ascii_toLowerCase ?q) = Some n \<longrightarrow> n < 2 ^ 53"
    by simp
  with c8 have "parseNaturalQuery ascii_toLowerCase ?q = Inr (interpret_spec (ascii_toLowerCase ?q))"
    by blast
  with p have i: "interpret_spec (ascii_toLowerCase ?q) = Some ?r" by simp
  from c8 ascii_lowering_ascii_toLowerCase
  have g: "parseNaturalQuery ascii_toLowerCase (str ''strings with the letter q'')
     = Inr (Some (no_filters\<lparr>contains_character := Some (str ''q'')\<rparr>))" by blast
  from ascii_lowering_ascii_toLowerCase n p i g show ?thesis by (intro conjI)
qed

text \<open>
  The claim as the specification has it, \<open>min_length = N + 1\<close> for every query, fails from
  \<open>N = 2^53\<close> on: \<open>N + 1\<close> is then not a double, and the sum is rounded back to \<open>N\<close>.
\<close>

theorem C8_no_successor_at_2_53:
  "parseNaturalQuery ascii_toLowerCase (str ''strings longer than 9007199254740992'')
     = Inr (Some (no_filters\<lparr>min_length := Some (Finite 9007199254740992)\<rparr>)) \<and>
   interpret_spec (ascii_toLowerCase (str ''strings longer than 9007199254740992''))
     = Some (no_filters\<lparr>min_length := Some (Finite 9007199254740993)\<rparr>)"
  by (simp add: interpret_spec_rules parse_eval)

section \<open>Dispatch of the natural-language route\<close>

lemma dispatch_natural_language:
  "dispatch routes GET [str ''strings'', str ''filter-by-natural-language'']
     = Some (GetStringByValue, [(str ''value'', str ''filter-by-natural-language'')])"
  by (simp add: routes_def str_def ascii_toLowerCase_def lower_unit_def)

text \<open>
  Claim C1. A GET request for \<open>/strings/filter-by-natural-language\<close> should reach the
  natural-language handler and, for a query the rules can parse, be answered with status
  200. The route \<open>/strings/:value\<close> is registered first and fits the path, so the request
  is answered by the handler of that route, with \<open>value = "filter-by-natural-language"\<close>,
  whatever the query: on the empty store with status 404, where the natural-language
  handler would have answered "all single word palindromic strings" with 200.
\<close>

theorem C1_natural_language_route_shadowed:
  "dispatch routes GET [str ''strings'', str ''filter-by-natural-language'']
     = Some (GetStringByValue, [(str ''value'', str ''filter-by-natural-language'')]) \<and>
   app_get lc sha strings [str ''strings'', str ''filter-by-natural-language''] query
     = Some (get_string_by_value lc sha strings (str ''filter-by-natural-language'')) \<and>
   app_get lc sha [] [str ''strings'', str ''filter-by-natural-language''] query
     = Some \<lparr> status = 404, body = ErrorBody (str ''String does not exist in the system'') \<rparr> \<and>
   status (get_filter_by_natural_language ascii_toLowerCase []
             (Some (str ''all single word palindromic strings''))) = 200"
proof -
  have a: "app_get lc sha s [str ''strings'', str ''filter-by-natural-language''] query
     = Some (get_string_by_value lc sha s (str ''filter-by-natural-language''))" for s
    by (simp add: app_get_def dispatch_natural_language)
  have n: "get_string_by_value lc sha [] v
     = \<lparr> status = 404, body = ErrorBody (str ''String does not exist in the system'') \<rparr>" for v
    by (simp add: get_string_by_value_def storage_get_def Let_def)
  have p: "parseNaturalQuery ascii_toLowerCase (str ''all single word palindromic strings'')
      = Inr (Some (no_filters\<lparr>is_palindrome_f := Some True, word_count_f := Some (Finite 1)\<rparr>))"
    by (simp add: str_def starts_with_def literal_digits_def length_regex_at_def
          letter_regex_at_def heuristic_filters_def keys_count_def truthy_def check_filters_def
          no_filters_def parseNaturalQuery_def ascii_toLowerCase_def lower_unit_def)
  have q: "str ''all single word palindromic strings'' \<noteq> []" by (simp add: str_def)
  have f: "status (get_filter_by_natural_language ascii_toLowerCase []
             (Some (str ''all single word palindromic strings''))) = 200"
    by (simp add: get_filter_by_natural_language_def p q)
  show ?thesis
    using dispatch_natural_language f by (simp add: a n)
qed

end
